theory Spec2Isabelle
  imports Complex_Main "HOL-Library.AList" "HOL-Library.Product_Lexorder"
begin

section \<open>Data model\<close>

text \<open>
  The decision engine of \<^verbatim>\<open>src/agent/decision_engine.py\<close> and the model classes it
  reads. Conventions of the embedding:
  \<^item> a Python \<^verbatim>\<open>dict\<close> is an association list in insertion order; \<open>map_of\<close> is the
    lookup, \<open>AList.update\<close> the subscript assignment (a present key keeps its place, a
    new key goes to the end), and a well-formed dictionary has distinct keys;
  \<^item> a Python \<^verbatim>\<open>int\<close> is an \<open>int\<close>; a Python \<^verbatim>\<open>float\<close> is a \<open>rat\<close>, so float
    arithmetic is taken as exact; the identification of imbalances, where the rounding
    decides which warehouses are recorded and with which amounts, is modelled a second
    time with the float arithmetic of the interpreter, and the classification is stated
    on that model;
  \<^item> a \<^verbatim>\<open>datetime\<close> is a \<open>rat\<close>: the seconds since midnight of a fixed epoch day,
    and a \<^verbatim>\<open>timedelta\<close> is a \<open>rat\<close> number of seconds;
  \<^item> \<^verbatim>\<open>datetime.now()\<close> reads a clock \<open>nat \<Rightarrow> rat\<close> at a counter that the model
    threads through the calls;
  \<^item> the \<^verbatim>\<open>metadata\<close> dictionaries, and the weather and road dictionaries of a
    \<^verbatim>\<open>RouteStatus\<close>, are left out: the engine never reads them;
  \<^item> a container that a function builds and hands on without a later write is a value;
    the dictionaries of remaining excess, which one function builds and another updates
    in place, are also modelled as objects of a store, next to the objects of the
    snapshot (the last section of the definitions);
  \<^item> a leading underscore of a source name is dropped.
\<close>

datatype error =
  KeyError | IndexError | ValueError | TypeError | OverflowError | ZeroDivisionError

record InventoryItem =
  item_id :: string
  item_name :: string
  item_category :: string
  quantity :: int
  item_unit :: string
  min_threshold :: int
  max_threshold :: int
  item_last_updated :: "rat option"

record Warehouse =
  wh_id :: string
  wh_name :: string
  wh_location :: string
  wh_capacity :: int
  wh_items :: "(string \<times> InventoryItem) list"

datatype ShipmentStatus =
  PENDING | PREPARING | IN_TRANSIT | DELAYED | REROUTING | ON_HOLD | DELIVERED | CANCELLED

record Shipment =
  shp_id :: string
  origin :: string
  destination :: string
  shp_items :: "(string \<times> int) list"
  status :: ShipmentStatus
  priority :: int
  route :: string
  estimated_arrival :: "rat option"
  actual_arrival :: "rat option"
  shp_last_updated :: "rat option"

record RouteStatus =
  rs_route_id :: string
  is_disrupted :: bool
  rs_last_updated :: "rat option"

text \<open>The alert dictionary built by \<^verbatim>\<open>_check_inventory_alerts\<close> in \<^verbatim>\<open>core.py\<close>.\<close>

record alert =
  al_warehouse_id :: string
  al_warehouse_name :: string
  al_item_id :: string
  al_item_name :: string
  al_current_quantity :: int
  al_min_threshold :: int
  al_unit :: string
  al_severity :: string

text \<open>The two dictionary shapes the engine emits for inventory transfers.\<close>

record transfer_item =
  ti_id :: string
  ti_name :: string
  ti_quantity :: rat
  ti_unit :: string

record transfer_decision =
  source_warehouse :: string
  destination_warehouse :: string
  td_items :: "transfer_item list"
  td_reason :: string
  td_priority :: int

section \<open>Distances\<close>

definition distance_matrix :: "((string \<times> string) \<times> rat) list" where
  "distance_matrix =
    [((''warehouse_1'', ''warehouse_2''), 150),
     ((''warehouse_1'', ''warehouse_3''), 320),
     ((''warehouse_1'', ''warehouse_4''), 450),
     ((''warehouse_2'', ''warehouse_1''), 150),
     ((''warehouse_2'', ''warehouse_3''), 180),
     ((''warehouse_2'', ''warehouse_4''), 300),
     ((''warehouse_3'', ''warehouse_1''), 320),
     ((''warehouse_3'', ''warehouse_2''), 180),
     ((''warehouse_3'', ''warehouse_4''), 200),
     ((''warehouse_4'', ''warehouse_1''), 450),
     ((''warehouse_4'', ''warehouse_2''), 300),
     ((''warehouse_4'', ''warehouse_3''), 200)]"

definition calculate_distance :: "string \<Rightarrow> string \<Rightarrow> rat" where
  "calculate_distance origin_id destination_id =
    (case map_of distance_matrix (origin_id, destination_id) of
       Some d \<Rightarrow> d
     | None \<Rightarrow> 1000)"

section \<open>Replenishment\<close>

record source_info =
  si_warehouse :: Warehouse
  excess_quantity :: int
  distance_to_destination :: rat

fun find_inventory_sources_loop ::
  "string \<Rightarrow> string \<Rightarrow> (string \<times> Warehouse) list \<Rightarrow> (string \<times> source_info) list
    \<Rightarrow> (string \<times> source_info) list" where
  "find_inventory_sources_loop item destination_id [] potential_sources = potential_sources"
| "find_inventory_sources_loop item destination_id ((warehouse_id, warehouse) # rest)
      potential_sources =
    (if warehouse_id = destination_id
     then find_inventory_sources_loop item destination_id rest potential_sources
     else
       (case map_of (wh_items warehouse) item of
          None \<Rightarrow> find_inventory_sources_loop item destination_id rest potential_sources
        | Some it \<Rightarrow>
            (if quantity it - min_threshold it > 0
             then find_inventory_sources_loop item destination_id rest
                    (AList.update warehouse_id
                       \<lparr>si_warehouse = warehouse,
                        excess_quantity = quantity it - min_threshold it,
                        distance_to_destination =
                          calculate_distance warehouse_id destination_id\<rparr>
                       potential_sources)
             else find_inventory_sources_loop item destination_id rest potential_sources)))"

definition find_inventory_sources ::
  "(string \<times> Warehouse) list \<Rightarrow> string \<Rightarrow> string \<Rightarrow> (string \<times> source_info) list" where
  "find_inventory_sources warehouses item destination_id =
     find_inventory_sources_loop item destination_id warehouses []"

text \<open>
  \<^verbatim>\<open>sorted\<close> is stable, as \<open>sort_key\<close> is; the key is the tuple (distance, minus the
  excess), compared lexicographically. The second argument is unused, as in the source.
\<close>

definition select_best_inventory_source ::
  "(string \<times> source_info) list \<Rightarrow> string \<Rightarrow> string option" where
  "select_best_inventory_source potential_sources destination_id =
    (case sort_key (\<lambda>x. (distance_to_destination (snd x), - excess_quantity (snd x)))
            potential_sources of
       [] \<Rightarrow> None
     | s # _ \<Rightarrow> Some (fst s))"

text \<open>
  The body of the loop over the alerts: \<open>Inr None\<close> when no source warehouse is found,
  \<open>Inr (Some d)\<close> for the decision appended. Subscripting \<^verbatim>\<open>potential_sources\<close> with a
  missing key would raise.
\<close>

definition replenish_alert ::
  "(string \<times> Warehouse) list \<Rightarrow> alert \<Rightarrow> error + transfer_decision option" where
  "replenish_alert warehouses a =
    (let potential_sources =
           find_inventory_sources warehouses (al_item_id a) (al_warehouse_id a)
     in if potential_sources \<noteq> [] then
          (case select_best_inventory_source potential_sources (al_warehouse_id a) of
             None \<Rightarrow> Inl KeyError
           | Some best_source \<Rightarrow>
               (case map_of potential_sources best_source of
                  None \<Rightarrow> Inl KeyError
                | Some info \<Rightarrow>
                    (let target_quantity = of_int (al_min_threshold a) * (3 / 2);
                         transfer_quantity = target_quantity - of_int (al_current_quantity a);
                         available_excess = of_int (excess_quantity info);
                         transfer_quantity =
                           (if transfer_quantity > available_excess then available_excess
                            else transfer_quantity)
                     in Inr (Some
                          \<lparr>source_warehouse = best_source,
                           destination_warehouse = al_warehouse_id a,
                           td_items =
                             [\<lparr>ti_id = al_item_id a, ti_name = al_item_name a,
                               ti_quantity = transfer_quantity, ti_unit = al_unit a\<rparr>],
                           td_reason = ''inventory_below_threshold'',
                           td_priority = (if al_severity a = ''high'' then 8 else 5)\<rparr>))))
        else Inr None)"

fun replenishment_loop ::
  "(string \<times> Warehouse) list \<Rightarrow> alert list \<Rightarrow> transfer_decision list
    \<Rightarrow> error + transfer_decision list" where
  "replenishment_loop warehouses [] replenishment_decisions = Inr replenishment_decisions"
| "replenishment_loop warehouses (a # rest) replenishment_decisions =
    (case replenish_alert warehouses a of
       Inl e \<Rightarrow> Inl e
     | Inr None \<Rightarrow> replenishment_loop warehouses rest replenishment_decisions
     | Inr (Some decision) \<Rightarrow>
         replenishment_loop warehouses rest (replenishment_decisions @ [decision]))"

definition evaluate_inventory_replenishment ::
  "(string \<times> Warehouse) list \<Rightarrow> alert list \<Rightarrow> error + transfer_decision list" where
  "evaluate_inventory_replenishment warehouses alerts =
     replenishment_loop warehouses alerts []"

section \<open>Rerouting\<close>

text \<open>The one field of \<^verbatim>\<open>AgentConfig\<close> that the engine reads.\<close>

record AgentConfig =
  reroute_delay_threshold_minutes :: int

text \<open>
  The issue dictionary built by \<^verbatim>\<open>_check_shipment_issues\<close> in \<^verbatim>\<open>core.py\<close>; the ISO
  text of the estimated arrival is kept as the time it prints.
\<close>

record issue =
  iss_shipment_id :: string
  iss_origin :: string
  iss_destination :: string
  iss_status :: string
  iss_estimated_arrival :: rat
  iss_delay_minutes :: rat
  iss_priority :: int
  iss_severity :: string

record alternative_route =
  route_id :: string
  estimated_duration_hours :: rat
  ar_estimated_arrival :: rat
  distance_km :: int
  fuel_consumption_liters :: int

record reroute_decision =
  rd_shipment_id :: string
  old_route :: string
  new_route :: string
  rd_reason :: string
  new_eta :: rat

definition hours :: "rat \<Rightarrow> rat" where
  "hours h = h * 3600"

definition minutes :: "rat \<Rightarrow> rat" where
  "minutes m = m * 60"

text \<open>\<^verbatim>\<open>now\<close> is the clock reading that the call takes.\<close>

definition find_alternative_routes ::
  "rat \<Rightarrow> string \<Rightarrow> string \<Rightarrow> string \<Rightarrow> alternative_route list" where
  "find_alternative_routes now origin_id destination_id current_route =
    (let alternatives =
       [\<lparr>route_id = ''route_'' @ origin_id @ ''_'' @ destination_id @ ''_alt1'',
         estimated_duration_hours = 17 / 2,
         ar_estimated_arrival = now + hours (17 / 2),
         distance_km = 320,
         fuel_consumption_liters = 95\<rparr>,
        \<lparr>route_id = ''route_'' @ origin_id @ ''_'' @ destination_id @ ''_alt2'',
         estimated_duration_hours = 46 / 5,
         ar_estimated_arrival = now + hours (46 / 5),
         distance_km = 350,
         fuel_consumption_liters = 105\<rparr>,
        \<lparr>route_id = ''route_'' @ origin_id @ ''_'' @ destination_id @ ''_alt3'',
         estimated_duration_hours = 10,
         ar_estimated_arrival = now + hours 10,
         distance_km = 380,
         fuel_consumption_liters = 115\<rparr>]
     in filter (\<lambda>r. route_id r \<noteq> current_route) alternatives)"

text \<open>
  The test \<^verbatim>\<open>route_id in route_conditions\<close> followed by the read of
  \<^verbatim>\<open>is_disrupted\<close>, as both the rerouting loop and the route selection do it.
\<close>

definition route_disrupted :: "(string \<times> RouteStatus) list \<Rightarrow> string \<Rightarrow> bool" where
  "route_disrupted route_conditions r =
    (case map_of route_conditions r of
       None \<Rightarrow> False
     | Some st \<Rightarrow> is_disrupted st)"

text \<open>Subscripting the sorted list at 0 raises on an empty list.\<close>

definition select_best_route ::
  "alternative_route list \<Rightarrow> int \<Rightarrow> (string \<times> RouteStatus) list \<Rightarrow> error + (string \<times> rat)" where
  "select_best_route alternative_routes shipment_priority route_conditions =
    (let valid_routes =
           filter (\<lambda>r. \<not> route_disrupted route_conditions (route_id r)) alternative_routes;
         valid_routes = (if valid_routes = [] then alternative_routes else valid_routes);
         sorted_routes =
           (if shipment_priority \<ge> 8 then
              sort_key estimated_duration_hours valid_routes
            else if shipment_priority \<ge> 5 then
              sort_key (\<lambda>x. (estimated_duration_hours x, fuel_consumption_liters x))
                valid_routes
            else
              sort_key fuel_consumption_liters valid_routes)
     in case sorted_routes of
          [] \<Rightarrow> Inl IndexError
        | best_route # _ \<Rightarrow> Inr (route_id best_route, ar_estimated_arrival best_route))"

text \<open>
  The body of the loop over the issues, at clock counter \<open>tick\<close>: the decision appended,
  if any, and the counter after it (the clock is read once, by
  \<^verbatim>\<open>_find_alternative_routes\<close>, when rerouting is needed).
\<close>

definition reroute_issue ::
  "AgentConfig \<Rightarrow> (nat \<Rightarrow> rat) \<Rightarrow> nat \<Rightarrow> (string \<times> Shipment) list \<Rightarrow>
    (string \<times> RouteStatus) list \<Rightarrow> issue \<Rightarrow> error + (reroute_decision option \<times> nat)" where
  "reroute_issue config clock tick active_shipments route_conditions i =
    (case map_of active_shipments (iss_shipment_id i) of
       None \<Rightarrow> Inr (None, tick)
     | Some shipment \<Rightarrow>
         (let current_route = route shipment;
              disrupted = route_disrupted route_conditions current_route;
              (needs_rerouting, reason) =
                (if disrupted then (True, ''route_disruption'')
                 else if iss_delay_minutes i > of_int (reroute_delay_threshold_minutes config)
                 then (True, ''significant_delay'')
                 else (False, ''''))
          in if needs_rerouting then
               (let alternative_routes =
                      find_alternative_routes (clock tick) (origin shipment)
                        (destination shipment) current_route
                in if alternative_routes \<noteq> [] then
                     (case select_best_route alternative_routes (priority shipment)
                             route_conditions of
                        Inl e \<Rightarrow> Inl e
                      | Inr (new_route_id, eta) \<Rightarrow>
                          Inr (Some \<lparr>rd_shipment_id = iss_shipment_id i,
                                     old_route = current_route,
                                     new_route = new_route_id,
                                     rd_reason = reason,
                                     new_eta = eta\<rparr>, Suc tick))
                   else Inr (None, Suc tick))
             else Inr (None, tick)))"

fun rerouting_loop ::
  "AgentConfig \<Rightarrow> (nat \<Rightarrow> rat) \<Rightarrow> (string \<times> Shipment) list \<Rightarrow>
    (string \<times> RouteStatus) list \<Rightarrow> issue list \<Rightarrow> nat \<Rightarrow> reroute_decision list \<Rightarrow>
    error + reroute_decision list" where
  "rerouting_loop config clock active_shipments route_conditions [] tick rerouting_decisions =
     Inr rerouting_decisions"
| "rerouting_loop config clock active_shipments route_conditions (i # rest) tick
      rerouting_decisions =
    (case reroute_issue config clock tick active_shipments route_conditions i of
       Inl e \<Rightarrow> Inl e
     | Inr (None, tick') \<Rightarrow>
         rerouting_loop config clock active_shipments route_conditions rest tick'
           rerouting_decisions
     | Inr (Some decision, tick') \<Rightarrow>
         rerouting_loop config clock active_shipments route_conditions rest tick'
           (rerouting_decisions @ [decision]))"

definition evaluate_shipment_rerouting ::
  "AgentConfig \<Rightarrow> (nat \<Rightarrow> rat) \<Rightarrow> (string \<times> Shipment) list \<Rightarrow> issue list \<Rightarrow>
    (string \<times> RouteStatus) list \<Rightarrow> error + reroute_decision list" where
  "evaluate_shipment_rerouting config clock active_shipments issues route_conditions =
     rerouting_loop config clock active_shipments route_conditions issues 0 []"

subsection \<open>The driver's issue list\<close>

definition status_value :: "ShipmentStatus \<Rightarrow> string" where
  "status_value s =
    (case s of
       PENDING \<Rightarrow> ''pending'' | PREPARING \<Rightarrow> ''preparing'' | IN_TRANSIT \<Rightarrow> ''in_transit''
     | DELAYED \<Rightarrow> ''delayed'' | REROUTING \<Rightarrow> ''rerouting'' | ON_HOLD \<Rightarrow> ''on_hold''
     | DELIVERED \<Rightarrow> ''delivered'' | CANCELLED \<Rightarrow> ''cancelled'')"

text \<open>
  The list \<^verbatim>\<open>issues\<close> that \<^verbatim>\<open>_check_shipment_issues\<close> of \<^verbatim>\<open>core.py\<close> builds from the
  active shipments and passes to \<^verbatim>\<open>evaluate_shipment_rerouting\<close>; \<^verbatim>\<open>now\<close> is its one
  clock reading.
\<close>

fun check_shipment_issues :: "rat \<Rightarrow> (string \<times> Shipment) list \<Rightarrow> issue list" where
  "check_shipment_issues now [] = []"
| "check_shipment_issues now ((shipment_id, shipment) # rest) =
    (if status shipment \<in> set [REROUTING, ON_HOLD] then check_shipment_issues now rest
     else
       (case estimated_arrival shipment of
          None \<Rightarrow> check_shipment_issues now rest
        | Some eta \<Rightarrow>
            (if eta < now then
               \<lparr>iss_shipment_id = shipment_id,
                iss_origin = origin shipment,
                iss_destination = destination shipment,
                iss_status = status_value (status shipment),
                iss_estimated_arrival = eta,
                iss_delay_minutes = (now - eta) / 60,
                iss_priority = priority shipment,
                iss_severity = (if priority shipment \<ge> 8 then ''high'' else ''medium'')\<rparr>
               # check_shipment_issues now rest
             else check_shipment_issues now rest)))"

section \<open>Route consolidation\<close>

record savings =
  sv_distance_km :: int
  sv_fuel_liters :: int
  sv_time_hours :: rat
  sv_cost_usd :: int

text \<open>
  The identifier \<^verbatim>\<open>opt_{region}_{now:%Y%m%d%H%M}\<close> is kept as the region and the clock
  reading it prints.
\<close>

record route_optimization =
  optimization_id :: "string \<times> rat"
  ro_shipment_ids :: "string list"
  optimized_routes :: "string list"
  new_etas :: "rat list"
  estimated_savings :: savings

text \<open>\<^verbatim>\<open>groups[key].append(x)\<close>, after \<^verbatim>\<open>groups[key] = []\<close> for a key not yet present.\<close>

definition group_append :: "'k \<Rightarrow> 'v \<Rightarrow> ('k \<times> 'v list) list \<Rightarrow> ('k \<times> 'v list) list" where
  "group_append key x groups =
     AList.update key ((case map_of groups key of None \<Rightarrow> [] | Some xs \<Rightarrow> xs) @ [x]) groups"

text \<open>\<^verbatim>\<open>destination.split('_')[0]\<close>: the text before the first underscore.\<close>

definition region_of :: "string \<Rightarrow> string" where
  "region_of dest = takeWhile (\<lambda>c. c \<noteq> CHR ''_'') dest"

fun group_shipments_by_region_loop ::
  "(string \<times> Shipment) list \<Rightarrow> (string \<times> Shipment list) list \<Rightarrow> (string \<times> Shipment list) list" where
  "group_shipments_by_region_loop [] shipment_groups = shipment_groups"
| "group_shipments_by_region_loop ((shipment_id, shipment) # rest) shipment_groups =
     group_shipments_by_region_loop rest
       (group_append (region_of (destination shipment)) shipment shipment_groups)"

definition group_shipments_by_region ::
  "(string \<times> Shipment) list \<Rightarrow> (string \<times> Shipment list) list" where
  "group_shipments_by_region active_shipments =
     group_shipments_by_region_loop active_shipments []"

fun find_consolidation_candidates_loop :: "Shipment list \<Rightarrow> Shipment list \<Rightarrow> Shipment list" where
  "find_consolidation_candidates_loop [] candidates = candidates"
| "find_consolidation_candidates_loop (shipment # rest) candidates =
    (if status shipment = IN_TRANSIT \<and> estimated_arrival shipment \<noteq> None
     then find_consolidation_candidates_loop rest (candidates @ [shipment])
     else find_consolidation_candidates_loop rest candidates)"

definition find_consolidation_candidates :: "Shipment list \<Rightarrow> Shipment list" where
  "find_consolidation_candidates shipments = find_consolidation_candidates_loop shipments []"

text \<open>
  The loop of \<^verbatim>\<open>_generate_optimized_routes\<close> over the shipments, with its two lists. A
  \<^verbatim>\<open>datetime\<close> is always true in a condition, so \<^verbatim>\<open>if shipment.estimated_arrival:\<close>
  tests for \<^verbatim>\<open>None\<close>; the other branch is the fallback of eight hours.
\<close>

fun generate_optimized_routes_loop ::
  "rat \<Rightarrow> Shipment list \<Rightarrow> string list \<times> rat list \<Rightarrow> string list \<times> rat list" where
  "generate_optimized_routes_loop now [] (routes, etas) = (routes, etas)"
| "generate_optimized_routes_loop now (shipment # rest) (routes, etas) =
    (let new_route = ''opt_route_'' @ origin shipment @ ''_'' @ destination shipment;
         routes = routes @ [new_route]
     in case estimated_arrival shipment of
          Some eta \<Rightarrow>
            (let current_duration = eta - now;
                 new_duration = current_duration * (9 / 10);
                 new_eta = now + new_duration
             in generate_optimized_routes_loop now rest (routes, etas @ [new_eta]))
        | None \<Rightarrow>
            generate_optimized_routes_loop now rest (routes, etas @ [now + hours 8]))"

definition generate_optimized_routes ::
  "rat \<Rightarrow> Shipment list \<Rightarrow> (string \<times> RouteStatus) list \<Rightarrow> string list \<times> rat list \<times> savings" where
  "generate_optimized_routes now shipments route_conditions =
    (let (routes, etas) = generate_optimized_routes_loop now shipments ([], [])
     in (routes, etas,
         \<lparr>sv_distance_km = 120, sv_fuel_liters = 35, sv_time_hours = 5 / 2,
          sv_cost_usd = 180\<rparr>))"

text \<open>
  The loop over the regions, at clock counter \<open>tick\<close>: one reading for the plan and, if a
  recommendation is made, one for its identifier.
\<close>

fun optimize_routes_loop ::
  "(nat \<Rightarrow> rat) \<Rightarrow> (string \<times> RouteStatus) list \<Rightarrow> (string \<times> Shipment list) list \<Rightarrow> nat \<Rightarrow>
    route_optimization list \<Rightarrow> route_optimization list \<times> nat" where
  "optimize_routes_loop clock route_conditions [] tick recommendations =
     (recommendations, tick)"
| "optimize_routes_loop clock route_conditions ((region, shipments) # rest) tick
      recommendations =
    (if length shipments < 2
     then optimize_routes_loop clock route_conditions rest tick recommendations
     else
       (let consolidation_candidates = find_consolidation_candidates shipments
        in if consolidation_candidates \<noteq> [] then
             (let shipment_ids = map shp_id consolidation_candidates;
                  (routes, etas, saved) =
                     generate_optimized_routes (clock tick) consolidation_candidates
                       route_conditions
              in if routes \<noteq> [] then
                   optimize_routes_loop clock route_conditions rest (tick + 2)
                     (recommendations @
                        [\<lparr>optimization_id = (region, clock (tick + 1)),
                          ro_shipment_ids = shipment_ids,
                          optimized_routes = routes,
                          new_etas = etas,
                          estimated_savings = saved\<rparr>])
                 else optimize_routes_loop clock route_conditions rest (tick + 1)
                        recommendations)
           else optimize_routes_loop clock route_conditions rest tick recommendations))"

definition optimize_routes ::
  "(nat \<Rightarrow> rat) \<Rightarrow> nat \<Rightarrow> (string \<times> Shipment list) list \<Rightarrow> (string \<times> RouteStatus) list \<Rightarrow>
    route_optimization list \<times> nat" where
  "optimize_routes clock tick shipment_groups route_conditions =
     optimize_routes_loop clock route_conditions shipment_groups tick []"

section \<open>Inventory balancing\<close>

text \<open>
  The thresholds \<^verbatim>\<open>0.25\<close> and \<^verbatim>\<open>0.15\<close> are the rationals \<open>1/4\<close> and \<open>3/20\<close>, and the
  division of two integers is the exact quotient. \<^verbatim>\<open>int(x)\<close> on a float truncates
  towards zero. This is the arithmetic without rounding; the invariants of the balancing,
  which hold for whatever amounts are recorded, are proved with it. The identification
  with the rounding of every operation has its own section.
\<close>

definition py_int :: "rat \<Rightarrow> int" where
  "py_int x = (if x \<ge> 0 then \<lfloor>x\<rfloor> else \<lceil>x\<rceil>)"

text \<open>The inner dictionaries of \<^verbatim>\<open>item_inventory\<close>, and the entries of the result.\<close>

record stock_level =
  sl_quantity :: int
  sl_min_threshold :: int
  sl_max_threshold :: int

record item_data =
  id_name :: string
  id_category :: string
  id_unit :: string
  id_warehouses :: "(string \<times> stock_level) list"

record imbalance =
  im_name :: string
  im_unit :: string
  excess :: "(string \<times> int) list"
  deficit :: "(string \<times> int) list"

subsection \<open>Collecting the levels of each item\<close>

text \<open>
  The two statements of the inner loop in one: an item seen for the first time gets a
  new entry at the end, and the entry's \<^verbatim>\<open>warehouses\<close> dictionary is then updated in
  place.
\<close>

fun collect_items_loop ::
  "string \<Rightarrow> (string \<times> InventoryItem) list \<Rightarrow> (string \<times> item_data) list
    \<Rightarrow> (string \<times> item_data) list" where
  "collect_items_loop warehouse_id [] item_inventory = item_inventory"
| "collect_items_loop warehouse_id ((item, it) # rest) item_inventory =
    (let data =
           (case map_of item_inventory item of
              None \<Rightarrow> \<lparr>id_name = item_name it, id_category = item_category it,
                        id_unit = item_unit it, id_warehouses = []\<rparr>
            | Some data \<Rightarrow> data);
         level = \<lparr>sl_quantity = quantity it, sl_min_threshold = min_threshold it,
                  sl_max_threshold = max_threshold it\<rparr>
     in collect_items_loop warehouse_id rest
          (AList.update item
             (data\<lparr>id_warehouses := AList.update warehouse_id level (id_warehouses data)\<rparr>)
             item_inventory))"

fun collect_inventory_loop ::
  "(string \<times> Warehouse) list \<Rightarrow> (string \<times> item_data) list \<Rightarrow> (string \<times> item_data) list" where
  "collect_inventory_loop [] item_inventory = item_inventory"
| "collect_inventory_loop ((warehouse_id, warehouse) # rest) item_inventory =
     collect_inventory_loop rest
       (collect_items_loop warehouse_id (wh_items warehouse) item_inventory)"

subsection \<open>Ratios, their mean, and the classification\<close>

definition threshold_range :: "stock_level \<Rightarrow> int" where
  "threshold_range inventory = sl_max_threshold inventory - sl_min_threshold inventory"

definition ratio :: "stock_level \<Rightarrow> rat" where
  "ratio inventory =
     of_int (sl_quantity inventory - sl_min_threshold inventory) /
     of_int (threshold_range inventory)"

text \<open>The first loop over the warehouses of an item: the running total and count.\<close>

fun ratio_loop :: "(string \<times> stock_level) list \<Rightarrow> rat \<times> nat \<Rightarrow> rat \<times> nat" where
  "ratio_loop [] (total_ratio, warehouse_count) = (total_ratio, warehouse_count)"
| "ratio_loop ((warehouse_id, inventory) # rest) (total_ratio, warehouse_count) =
    (if threshold_range inventory > 0
     then ratio_loop rest (total_ratio + ratio inventory, warehouse_count + 1)
     else ratio_loop rest (total_ratio, warehouse_count))"

text \<open>The second loop: the two dictionaries \<^verbatim>\<open>excess_warehouses\<close> and \<^verbatim>\<open>deficit_warehouses\<close>.\<close>

fun classify_loop ::
  "rat \<Rightarrow> (string \<times> stock_level) list \<Rightarrow> (string \<times> int) list \<times> (string \<times> int) list
    \<Rightarrow> (string \<times> int) list \<times> (string \<times> int) list" where
  "classify_loop avg_ratio [] (excess_warehouses, deficit_warehouses) =
     (excess_warehouses, deficit_warehouses)"
| "classify_loop avg_ratio ((warehouse_id, inventory) # rest)
      (excess_warehouses, deficit_warehouses) =
    (if threshold_range inventory > 0 then
       (if ratio inventory > avg_ratio + 1 / 4 then
          (let excess_amount =
                 py_int ((ratio inventory - avg_ratio - 3 / 20)
                           * of_int (threshold_range inventory))
           in if excess_amount > 0
              then classify_loop avg_ratio rest
                     (AList.update warehouse_id excess_amount excess_warehouses,
                      deficit_warehouses)
              else classify_loop avg_ratio rest (excess_warehouses, deficit_warehouses))
        else if ratio inventory < avg_ratio - 1 / 4 then
          (let deficit_amount =
                 py_int ((avg_ratio - 3 / 20 - ratio inventory)
                           * of_int (threshold_range inventory))
           in if deficit_amount > 0
              then classify_loop avg_ratio rest
                     (excess_warehouses,
                      AList.update warehouse_id deficit_amount deficit_warehouses)
              else classify_loop avg_ratio rest (excess_warehouses, deficit_warehouses))
        else classify_loop avg_ratio rest (excess_warehouses, deficit_warehouses))
     else classify_loop avg_ratio rest (excess_warehouses, deficit_warehouses))"

text \<open>
  The body of the loop over \<^verbatim>\<open>item_inventory\<close>, in two parts. First the two
  dictionaries of the item, \<open>None\<close> where the source continues before it builds them
  (an item in one warehouse only, or no warehouse with a positive range); then the entry
  of the result, \<open>None\<close> where the item gets none.
\<close>

definition classify_item ::
  "item_data \<Rightarrow> ((string \<times> int) list \<times> (string \<times> int) list) option" where
  "classify_item data =
    (if length (id_warehouses data) \<le> 1 then None
     else
       (let (total_ratio, warehouse_count) = ratio_loop (id_warehouses data) (0, 0)
        in if warehouse_count = 0 then None
           else
             (let avg_ratio = total_ratio / of_nat warehouse_count
              in Some (classify_loop avg_ratio (id_warehouses data) ([], [])))))"

definition identify_item :: "item_data \<Rightarrow> imbalance option" where
  "identify_item data =
    (case classify_item data of
       None \<Rightarrow> None
     | Some (excess_warehouses, deficit_warehouses) \<Rightarrow>
         (if excess_warehouses \<noteq> [] \<and> deficit_warehouses \<noteq> []
          then Some \<lparr>im_name = id_name data, im_unit = id_unit data,
                     excess = excess_warehouses, deficit = deficit_warehouses\<rparr>
          else None))"

fun identify_loop ::
  "(string \<times> item_data) list \<Rightarrow> (string \<times> imbalance) list \<Rightarrow> (string \<times> imbalance) list" where
  "identify_loop [] imbalanced_items = imbalanced_items"
| "identify_loop ((item, data) # rest) imbalanced_items =
    (case identify_item data of
       None \<Rightarrow> identify_loop rest imbalanced_items
     | Some entry \<Rightarrow> identify_loop rest (AList.update item entry imbalanced_items))"

definition identify_inventory_imbalances ::
  "(string \<times> Warehouse) list \<Rightarrow> (string \<times> imbalance) list" where
  "identify_inventory_imbalances warehouses =
     identify_loop (collect_inventory_loop warehouses []) []"

subsection \<open>Transfers from excess to deficit\<close>

text \<open>
  The search for the nearest warehouse with excess left; \<open>None\<close> as best distance is
  \<^verbatim>\<open>float('inf')\<close>, which every distance is below.
\<close>

fun best_source_loop ::
  "string \<Rightarrow> (string \<times> int) list \<Rightarrow> string option \<times> rat option \<Rightarrow> string option \<times> rat option" where
  "best_source_loop deficit_id [] (best_source, best_distance) = (best_source, best_distance)"
| "best_source_loop deficit_id ((excess_id, excess_amount) # rest) (best_source, best_distance) =
    (if excess_amount \<le> 0 then best_source_loop deficit_id rest (best_source, best_distance)
     else
       (let distance = calculate_distance excess_id deficit_id
        in if (case best_distance of None \<Rightarrow> True | Some b \<Rightarrow> distance < b)
           then best_source_loop deficit_id rest (Some excess_id, Some distance)
           else best_source_loop deficit_id rest (best_source, best_distance)))"

text \<open>
  The loop over the deficit warehouses of one item. It carries the recommendations and
  the dictionary \<^verbatim>\<open>excess_warehouses\<close>, which the source updates in place. The test
  \<^verbatim>\<open>if best_source:\<close> fails for \<^verbatim>\<open>None\<close> and for the empty string.
\<close>

fun deficit_loop ::
  "string \<Rightarrow> imbalance \<Rightarrow> (string \<times> int) list \<Rightarrow> (string \<times> int) list \<Rightarrow>
    transfer_decision list \<Rightarrow> error + (transfer_decision list \<times> (string \<times> int) list)" where
  "deficit_loop item imbalance_data [] excess_warehouses recommendations =
     Inr (recommendations, excess_warehouses)"
| "deficit_loop item imbalance_data ((deficit_id, deficit_amount) # rest) excess_warehouses
      recommendations =
    (case fst (best_source_loop deficit_id excess_warehouses (None, None)) of
       None \<Rightarrow> deficit_loop item imbalance_data rest excess_warehouses recommendations
     | Some best_source \<Rightarrow>
         (if best_source = [] then
            deficit_loop item imbalance_data rest excess_warehouses recommendations
          else
            (case map_of excess_warehouses best_source of
               None \<Rightarrow> Inl KeyError
             | Some excess_amount \<Rightarrow>
                 (let transfer_amount = min excess_amount deficit_amount;
                      recommendation =
                        \<lparr>source_warehouse = best_source,
                         destination_warehouse = deficit_id,
                         td_items =
                           [\<lparr>ti_id = item, ti_name = im_name imbalance_data,
                             ti_quantity = of_int transfer_amount,
                             ti_unit = im_unit imbalance_data\<rparr>],
                         td_reason = ''inventory_balancing'',
                         td_priority = 3\<rparr>
                  in deficit_loop item imbalance_data rest
                       (AList.update best_source (excess_amount - transfer_amount)
                          excess_warehouses)
                       (recommendations @ [recommendation])))))"

fun balance_loop ::
  "(string \<times> imbalance) list \<Rightarrow> transfer_decision list \<Rightarrow> error + transfer_decision list" where
  "balance_loop [] recommendations = Inr recommendations"
| "balance_loop ((item, imbalance_data) # rest) recommendations =
    (if excess imbalance_data = [] \<or> deficit imbalance_data = []
     then balance_loop rest recommendations
     else
       (case deficit_loop item imbalance_data (deficit imbalance_data)
               (excess imbalance_data) recommendations of
          Inl e \<Rightarrow> Inl e
        | Inr (recommendations, excess_warehouses) \<Rightarrow> balance_loop rest recommendations))"

definition balance_inventory ::
  "(string \<times> Warehouse) list \<Rightarrow> error + transfer_decision list" where
  "balance_inventory warehouses =
     balance_loop (identify_inventory_imbalances warehouses) []"

section \<open>Schedule staggering\<close>

record schedule =
  sch_estimated_arrival :: rat
  delivery_window_start :: rat
  delivery_window_end :: rat

text \<open>
  The identifier \<^verbatim>\<open>adj_{destination}_{date:%Y%m%d}\<close> is kept as the destination and the
  date, and a date is the number of its day: \<^verbatim>\<open>datetime.date()\<close> is the whole number of
  days in the seconds since the epoch midnight.
\<close>

record schedule_adjustment =
  adjustment_id :: "string \<times> int"
  sa_shipment_ids :: "string list"
  new_schedules :: "schedule list"
  sa_reason :: string

definition date_of :: "rat \<Rightarrow> int" where
  "date_of t = \<lfloor>t / 86400\<rfloor>"

text \<open>\<^verbatim>\<open>datetime.combine(date, time(hour=9))\<close>\<close>

definition nine_am :: "int \<Rightarrow> rat" where
  "nine_am d = of_int d * 86400 + hours 9"

text \<open>\<^verbatim>\<open>min\<close> of a generator raises on an empty one.\<close>

fun min_time :: "rat list \<Rightarrow> error + rat" where
  "min_time [] = Inl ValueError"
| "min_time (t # ts) = Inr (fold min ts t)"

fun staggered_schedules_loop :: "rat \<Rightarrow> nat \<Rightarrow> Shipment list \<Rightarrow> schedule list \<Rightarrow> schedule list" where
  "staggered_schedules_loop start_time i [] schedules = schedules"
| "staggered_schedules_loop start_time i (shipment # rest) schedules =
    (let new_arrival = start_time + hours (of_nat i * 2)
     in staggered_schedules_loop start_time (i + 1) rest
          (schedules @
             [\<lparr>sch_estimated_arrival = new_arrival,
               delivery_window_start = new_arrival - minutes 30,
               delivery_window_end = new_arrival + minutes 30\<rparr>]))"

text \<open>
  \<^verbatim>\<open>sorted(..., key=priority, reverse=True)\<close> keeps the order of shipments of equal
  priority, as the stable \<open>sort_key\<close> with the negated priority does.
\<close>

definition generate_staggered_schedules :: "Shipment list \<Rightarrow> error + schedule list" where
  "generate_staggered_schedules shipments =
    (let sorted_shipments = sort_key (\<lambda>s. - priority s) shipments
     in case min_time (List.map_filter estimated_arrival sorted_shipments) of
          Inl e \<Rightarrow> Inl e
        | Inr base_time \<Rightarrow>
            (let base_date = date_of base_time;
                 start_time = nine_am base_date;
                 start_time = (if base_time > start_time then base_time else start_time)
             in Inr (staggered_schedules_loop start_time 0 sorted_shipments [])))"

fun group_by_destination_loop ::
  "(string \<times> Shipment) list \<Rightarrow> (string \<times> Shipment list) list \<Rightarrow> (string \<times> Shipment list) list" where
  "group_by_destination_loop [] destination_groups = destination_groups"
| "group_by_destination_loop ((shipment_id, shipment) # rest) destination_groups =
     group_by_destination_loop rest
       (group_append (destination shipment) shipment destination_groups)"

fun group_by_date_loop ::
  "Shipment list \<Rightarrow> (int \<times> Shipment list) list \<Rightarrow> (int \<times> Shipment list) list" where
  "group_by_date_loop [] date_groups = date_groups"
| "group_by_date_loop (shipment # rest) date_groups =
    (case estimated_arrival shipment of
       None \<Rightarrow> group_by_date_loop rest date_groups
     | Some eta \<Rightarrow> group_by_date_loop rest (group_append (date_of eta) shipment date_groups))"

fun date_groups_loop ::
  "string \<Rightarrow> (int \<times> Shipment list) list \<Rightarrow> schedule_adjustment list \<Rightarrow>
    error + schedule_adjustment list" where
  "date_groups_loop dest [] recommendations = Inr recommendations"
| "date_groups_loop dest ((date, date_shipments) # rest) recommendations =
    (if length date_shipments \<ge> 2 then
       (let shipment_ids = map shp_id date_shipments
        in case generate_staggered_schedules date_shipments of
             Inl e \<Rightarrow> Inl e
           | Inr schedules \<Rightarrow>
               date_groups_loop dest rest
                 (recommendations @
                    [\<lparr>adjustment_id = (dest, date),
                      sa_shipment_ids = shipment_ids,
                      new_schedules = schedules,
                      sa_reason = ''optimize_receiving_operations''\<rparr>]))
     else date_groups_loop dest rest recommendations)"

fun destination_groups_loop ::
  "(string \<times> Shipment list) list \<Rightarrow> schedule_adjustment list \<Rightarrow>
    error + schedule_adjustment list" where
  "destination_groups_loop [] recommendations = Inr recommendations"
| "destination_groups_loop ((dest, shipments) # rest) recommendations =
    (if length shipments < 2 then destination_groups_loop rest recommendations
     else
       (case date_groups_loop dest (group_by_date_loop shipments []) recommendations of
          Inl e \<Rightarrow> Inl e
        | Inr recommendations \<Rightarrow> destination_groups_loop rest recommendations))"

definition optimize_schedules ::
  "(string \<times> Shipment) list \<Rightarrow> error + schedule_adjustment list" where
  "optimize_schedules active_shipments =
     destination_groups_loop (group_by_destination_loop active_shipments []) []"

section \<open>The optimization entry point\<close>

datatype recommendation =
    RouteOptimization route_optimization
  | InventoryTransfer transfer_decision
  | ScheduleAdjustment schedule_adjustment

definition optimize_logistics ::
  "(nat \<Rightarrow> rat) \<Rightarrow> (string \<times> Warehouse) list \<Rightarrow> (string \<times> Shipment) list \<Rightarrow>
    (string \<times> RouteStatus) list \<Rightarrow> error + recommendation list" where
  "optimize_logistics clock warehouses active_shipments route_conditions =
    (let shipment_groups = group_shipments_by_region active_shipments;
         (route_recommendations, tick) =
            optimize_routes clock 0 shipment_groups route_conditions
     in case balance_inventory warehouses of
          Inl e \<Rightarrow> Inl e
        | Inr inventory_recommendations \<Rightarrow>
            (case optimize_schedules active_shipments of
               Inl e \<Rightarrow> Inl e
             | Inr schedule_recommendations \<Rightarrow>
                 Inr (map RouteOptimization route_recommendations @
                      map InventoryTransfer inventory_recommendations @
                      map ScheduleAdjustment schedule_recommendations)))"

section \<open>The engine on a store of objects\<close>

text \<open>
  The objects of a snapshot and the dictionaries that the balancing shares between its
  two functions, at addresses of a store. An address is an index into the list of
  objects, and a new object goes to the end. The classes of objects: a dictionary whose
  values are objects (the warehouse, shipment and route-condition mappings, and the
  \<^verbatim>\<open>items\<close> of a warehouse); a \<^verbatim>\<open>Warehouse\<close> with its id, name, location, capacity
  and the address of its items; an \<^verbatim>\<open>InventoryItem\<close>, a \<^verbatim>\<open>Shipment\<close> and a
  \<^verbatim>\<open>RouteStatus\<close>; and a dictionary from warehouse ids to amounts
  (\<^verbatim>\<open>excess_warehouses\<close>, \<^verbatim>\<open>deficit_warehouses\<close>).
\<close>

datatype obj =
    RefDict "(string \<times> nat) list"
  | WarehouseObj string string string int nat
  | ItemObj InventoryItem
  | ShipmentObj Shipment
  | RouteObj RouteStatus
  | AmountDict "(string \<times> int) list"

text \<open>
  A dictionary literal allocates; reading an attribute or a subscript dereferences; a
  subscript assignment to a dictionary of amounts replaces the object at its address. The
  engine writes only through references that a literal of its own has returned, so a
  write through any other reference does not occur and changes nothing here.
\<close>

definition alloc :: "obj \<Rightarrow> obj list \<Rightarrow> nat \<times> obj list" where
  "alloc x st = (length st, st @ [x])"

definition deref :: "obj list \<Rightarrow> nat \<Rightarrow> obj option" where
  "deref st a = (if a < length st then Some (st ! a) else None)"

definition amounts_at :: "obj list \<Rightarrow> nat \<Rightarrow> (string \<times> int) list" where
  "amounts_at st a = (case deref st a of Some (AmountDict al) \<Rightarrow> al | _ \<Rightarrow> [])"

definition dict_set :: "nat \<Rightarrow> string \<Rightarrow> int \<Rightarrow> obj list \<Rightarrow> obj list" where
  "dict_set a k v st =
    (case deref st a of
       Some (AmountDict al) \<Rightarrow> st[a := AmountDict (AList.update k v al)]
     | _ \<Rightarrow> st)"

text \<open>
  Reading a mapping of the snapshot off the store, with the objects it contains: \<open>None\<close>
  where an address is not in the store or holds an object of another class.
\<close>

fun read_refs :: "(nat \<Rightarrow> 'a option) \<Rightarrow> (string \<times> nat) list \<Rightarrow> (string \<times> 'a) list option" where
  "read_refs rd [] = Some []"
| "read_refs rd ((k, a) # rest) =
    (case rd a of
       None \<Rightarrow> None
     | Some x \<Rightarrow> (case read_refs rd rest of None \<Rightarrow> None | Some xs \<Rightarrow> Some ((k, x) # xs)))"

definition read_item :: "obj list \<Rightarrow> nat \<Rightarrow> InventoryItem option" where
  "read_item st a = (case deref st a of Some (ItemObj it) \<Rightarrow> Some it | _ \<Rightarrow> None)"

definition read_warehouse :: "obj list \<Rightarrow> nat \<Rightarrow> Warehouse option" where
  "read_warehouse st a =
    (case deref st a of
       Some (WarehouseObj i n l c items_ref) \<Rightarrow>
         (case deref st items_ref of
            Some (RefDict refs) \<Rightarrow>
              (case read_refs (read_item st) refs of
                 None \<Rightarrow> None
               | Some its \<Rightarrow>
                   Some \<lparr>wh_id = i, wh_name = n, wh_location = l, wh_capacity = c,
                         wh_items = its\<rparr>)
          | _ \<Rightarrow> None)
     | _ \<Rightarrow> None)"

definition read_warehouses :: "obj list \<Rightarrow> nat \<Rightarrow> (string \<times> Warehouse) list option" where
  "read_warehouses st a =
    (case deref st a of
       Some (RefDict refs) \<Rightarrow> read_refs (read_warehouse st) refs
     | _ \<Rightarrow> None)"

definition read_shipment :: "obj list \<Rightarrow> nat \<Rightarrow> Shipment option" where
  "read_shipment st a = (case deref st a of Some (ShipmentObj s) \<Rightarrow> Some s | _ \<Rightarrow> None)"

definition read_shipments :: "obj list \<Rightarrow> nat \<Rightarrow> (string \<times> Shipment) list option" where
  "read_shipments st a =
    (case deref st a of
       Some (RefDict refs) \<Rightarrow> read_refs (read_shipment st) refs
     | _ \<Rightarrow> None)"

definition read_route :: "obj list \<Rightarrow> nat \<Rightarrow> RouteStatus option" where
  "read_route st a = (case deref st a of Some (RouteObj r) \<Rightarrow> Some r | _ \<Rightarrow> None)"

definition read_routes :: "obj list \<Rightarrow> nat \<Rightarrow> (string \<times> RouteStatus) list option" where
  "read_routes st a =
    (case deref st a of
       Some (RefDict refs) \<Rightarrow> read_refs (read_route st) refs
     | _ \<Rightarrow> None)"

subsection \<open>The balancing with its dictionaries in the store\<close>

text \<open>
  \<^verbatim>\<open>_identify_inventory_imbalances\<close> and \<^verbatim>\<open>_balance_inventory\<close> once more, statement by
  statement as in the section on inventory balancing, with \<^verbatim>\<open>excess_warehouses\<close> and
  \<^verbatim>\<open>deficit_warehouses\<close> as addresses: created by \<^verbatim>\<open>{}\<close> for each item held by more
  than one warehouse, filled by the classification, kept in the entry of the item, and
  the first of them decremented by the transfers. The levels of the items are collected
  from the warehouse mapping before any of this, as values (the source copies the three
  integers of each item).
\<close>

record imbalance_ref =
  imr_name :: string
  imr_unit :: string
  excess_ref :: nat
  deficit_ref :: nat

fun classify_loop_st ::
  "rat \<Rightarrow> (string \<times> stock_level) list \<Rightarrow> nat \<Rightarrow> nat \<Rightarrow> obj list \<Rightarrow> obj list" where
  "classify_loop_st avg_ratio [] excess_warehouses deficit_warehouses st = st"
| "classify_loop_st avg_ratio ((warehouse_id, inventory) # rest)
      excess_warehouses deficit_warehouses st =
    (if threshold_range inventory > 0 then
       (if ratio inventory > avg_ratio + 1 / 4 then
          (let excess_amount =
                 py_int ((ratio inventory - avg_ratio - 3 / 20)
                           * of_int (threshold_range inventory))
           in if excess_amount > 0
              then classify_loop_st avg_ratio rest excess_warehouses deficit_warehouses
                     (dict_set excess_warehouses warehouse_id excess_amount st)
              else classify_loop_st avg_ratio rest excess_warehouses deficit_warehouses st)
        else if ratio inventory < avg_ratio - 1 / 4 then
          (let deficit_amount =
                 py_int ((avg_ratio - 3 / 20 - ratio inventory)
                           * of_int (threshold_range inventory))
           in if deficit_amount > 0
              then classify_loop_st avg_ratio rest excess_warehouses deficit_warehouses
                     (dict_set deficit_warehouses warehouse_id deficit_amount st)
              else classify_loop_st avg_ratio rest excess_warehouses deficit_warehouses st)
        else classify_loop_st avg_ratio rest excess_warehouses deficit_warehouses st)
     else classify_loop_st avg_ratio rest excess_warehouses deficit_warehouses st)"

definition identify_item_st :: "item_data \<Rightarrow> obj list \<Rightarrow> imbalance_ref option \<times> obj list" where
  "identify_item_st data st =
    (if length (id_warehouses data) \<le> 1 then (None, st)
     else
       (let (excess_warehouses, st) = alloc (AmountDict []) st;
            (deficit_warehouses, st) = alloc (AmountDict []) st;
            (total_ratio, warehouse_count) = ratio_loop (id_warehouses data) (0, 0)
        in if warehouse_count = 0 then (None, st)
           else
             (let avg_ratio = total_ratio / of_nat warehouse_count;
                  st = classify_loop_st avg_ratio (id_warehouses data)
                         excess_warehouses deficit_warehouses st
              in if amounts_at st excess_warehouses \<noteq> [] \<and>
                    amounts_at st deficit_warehouses \<noteq> []
                 then (Some \<lparr>imr_name = id_name data, imr_unit = id_unit data,
                             excess_ref = excess_warehouses,
                             deficit_ref = deficit_warehouses\<rparr>, st)
                 else (None, st))))"

fun identify_loop_st ::
  "(string \<times> item_data) list \<Rightarrow> (string \<times> imbalance_ref) list \<Rightarrow> obj list \<Rightarrow>
    (string \<times> imbalance_ref) list \<times> obj list" where
  "identify_loop_st [] imbalanced_items st = (imbalanced_items, st)"
| "identify_loop_st ((item, data) # rest) imbalanced_items st =
    (case identify_item_st data st of
       (None, st) \<Rightarrow> identify_loop_st rest imbalanced_items st
     | (Some entry, st) \<Rightarrow> identify_loop_st rest (AList.update item entry imbalanced_items) st)"

definition identify_inventory_imbalances_st ::
  "(string \<times> Warehouse) list \<Rightarrow> obj list \<Rightarrow> (string \<times> imbalance_ref) list \<times> obj list" where
  "identify_inventory_imbalances_st warehouses st =
     identify_loop_st (collect_inventory_loop warehouses []) [] st"

fun deficit_loop_st ::
  "string \<Rightarrow> imbalance_ref \<Rightarrow> (string \<times> int) list \<Rightarrow> nat \<Rightarrow> transfer_decision list \<Rightarrow>
    obj list \<Rightarrow> (error + transfer_decision list) \<times> obj list" where
  "deficit_loop_st item imbalance_data [] excess_warehouses recommendations st =
     (Inr recommendations, st)"
| "deficit_loop_st item imbalance_data ((deficit_id, deficit_amount) # rest) excess_warehouses
      recommendations st =
    (case fst (best_source_loop deficit_id (amounts_at st excess_warehouses) (None, None)) of
       None \<Rightarrow>
         deficit_loop_st item imbalance_data rest excess_warehouses recommendations st
     | Some best_source \<Rightarrow>
         (if best_source = [] then
            deficit_loop_st item imbalance_data rest excess_warehouses recommendations st
          else
            (case map_of (amounts_at st excess_warehouses) best_source of
               None \<Rightarrow> (Inl KeyError, st)
             | Some excess_amount \<Rightarrow>
                 (let transfer_amount = min excess_amount deficit_amount;
                      recommendation =
                        \<lparr>source_warehouse = best_source,
                         destination_warehouse = deficit_id,
                         td_items =
                           [\<lparr>ti_id = item, ti_name = imr_name imbalance_data,
                             ti_quantity = of_int transfer_amount,
                             ti_unit = imr_unit imbalance_data\<rparr>],
                         td_reason = ''inventory_balancing'',
                         td_priority = 3\<rparr>
                  in deficit_loop_st item imbalance_data rest excess_warehouses
                       (recommendations @ [recommendation])
                       (dict_set excess_warehouses best_source
                          (excess_amount - transfer_amount) st)))))"

fun balance_loop_st ::
  "(string \<times> imbalance_ref) list \<Rightarrow> transfer_decision list \<Rightarrow> obj list \<Rightarrow>
    (error + transfer_decision list) \<times> obj list" where
  "balance_loop_st [] recommendations st = (Inr recommendations, st)"
| "balance_loop_st ((item, imbalance_data) # rest) recommendations st =
    (if amounts_at st (excess_ref imbalance_data) = [] \<or>
        amounts_at st (deficit_ref imbalance_data) = []
     then balance_loop_st rest recommendations st
     else
       (case deficit_loop_st item imbalance_data (amounts_at st (deficit_ref imbalance_data))
               (excess_ref imbalance_data) recommendations st of
          (Inl e, st) \<Rightarrow> (Inl e, st)
        | (Inr recommendations, st) \<Rightarrow> balance_loop_st rest recommendations st))"

definition balance_inventory_st ::
  "(string \<times> Warehouse) list \<Rightarrow> obj list \<Rightarrow> (error + transfer_decision list) \<times> obj list" where
  "balance_inventory_st warehouses st =
    (let (imbalanced_items, st) = identify_inventory_imbalances_st warehouses st
     in balance_loop_st imbalanced_items [] st)"

subsection \<open>The entry points on a store\<close>

text \<open>
  Each entry point takes the addresses of the mappings it is given and reads the objects
  through the store where the source first reads them; a mapping that does not hold
  objects of the expected class is a type error, which the source's type annotations rule
  out. Replenishment and rerouting, and the consolidation and staggering of the
  optimization, assign to no attribute and to no subscript of an object they are given:
  the lists and dictionaries they fill are their own and are values here, and the store
  passes through them as it is. The balancing is the part that writes to the store. The
  optimization reads the shipments again after the balancing, for the staggering.
\<close>

definition balance_inventory_obj ::
  "nat \<Rightarrow> obj list \<Rightarrow> (error + transfer_decision list) \<times> obj list" where
  "balance_inventory_obj warehouses st =
    (case read_warehouses st warehouses of
       None \<Rightarrow> (Inl TypeError, st)
     | Some ws \<Rightarrow> balance_inventory_st ws st)"

definition evaluate_inventory_replenishment_obj ::
  "nat \<Rightarrow> alert list \<Rightarrow> obj list \<Rightarrow> (error + transfer_decision list) \<times> obj list" where
  "evaluate_inventory_replenishment_obj warehouses alerts st =
    (case read_warehouses st warehouses of
       None \<Rightarrow> (Inl TypeError, st)
     | Some ws \<Rightarrow> (evaluate_inventory_replenishment ws alerts, st))"

definition evaluate_shipment_rerouting_obj ::
  "AgentConfig \<Rightarrow> (nat \<Rightarrow> rat) \<Rightarrow> nat \<Rightarrow> issue list \<Rightarrow> nat \<Rightarrow> obj list \<Rightarrow>
    (error + reroute_decision list) \<times> obj list" where
  "evaluate_shipment_rerouting_obj config clock active_shipments issues route_conditions st =
    (case read_shipments st active_shipments of
       None \<Rightarrow> (Inl TypeError, st)
     | Some active \<Rightarrow>
         (case read_routes st route_conditions of
            None \<Rightarrow> (Inl TypeError, st)
          | Some rc \<Rightarrow> (evaluate_shipment_rerouting config clock active issues rc, st)))"

definition optimize_logistics_obj ::
  "(nat \<Rightarrow> rat) \<Rightarrow> nat \<Rightarrow> nat \<Rightarrow> nat \<Rightarrow> obj list \<Rightarrow>
    (error + recommendation list) \<times> obj list" where
  "optimize_logistics_obj clock warehouses active_shipments route_conditions st =
    (case read_shipments st active_shipments of
       None \<Rightarrow> (Inl TypeError, st)
     | Some active \<Rightarrow>
         (case read_routes st route_conditions of
            None \<Rightarrow> (Inl TypeError, st)
          | Some rc \<Rightarrow>
              (let shipment_groups = group_shipments_by_region active;
                   (route_recommendations, tick) = optimize_routes clock 0 shipment_groups rc
               in case balance_inventory_obj warehouses st of
                    (Inl e, st) \<Rightarrow> (Inl e, st)
                  | (Inr inventory_recommendations, st) \<Rightarrow>
                      (case read_shipments st active_shipments of
                         None \<Rightarrow> (Inl TypeError, st)
                       | Some active \<Rightarrow>
                           (case optimize_schedules active of
                              Inl e \<Rightarrow> (Inl e, st)
                            | Inr schedule_recommendations \<Rightarrow>
                                (Inr (map RouteOptimization route_recommendations @
                                      map InventoryTransfer inventory_recommendations @
                                      map ScheduleAdjustment schedule_recommendations),
                                 st))))))"

section \<open>Inventory balancing in binary floating point\<close>

text \<open>
  Python's \<^verbatim>\<open>float\<close> is the binary64 format of IEEE 754. A finite float is the rational
  it denotes (the two zeros are one value: the engine never divides by a float zero and
  never prints one), next to the two infinities and the value that is not a number.
\<close>

datatype float = Finite rat | PlusInf | MinusInf | NaN

subsection \<open>Rounding to the nearest float\<close>

text \<open>
  Every operation returns the float nearest to the exact result, the one with the even
  significand when two are equally near. The powers of two with an integer exponent:
\<close>

definition pow2 :: "int \<Rightarrow> rat" where
  "pow2 e = (if 0 \<le> e then of_int (2 ^ nat e) else 1 / of_int (2 ^ nat (- e)))"

text \<open>The number of binary digits of a positive integer.\<close>

function bit_length :: "int \<Rightarrow> int" where
  "bit_length n = (if n \<le> 0 then 0 else bit_length (n div 2) + 1)"
  by pat_completeness auto
termination
  by (relation "measure nat") auto

declare bit_length.simps [simp del]

text \<open>
  The exponent \<open>e\<close> of a rational \<open>x \<noteq> 0\<close>, with \<open>2\<^sup>e \<le> \<bar>x\<bar> < 2\<^sup>e\<^sup>+\<^sup>1\<close>: the quotient of
  a numerator of \<open>m\<close> digits and a denominator of \<open>n\<close> digits lies between \<open>2\<^sup>m\<^sup>-\<^sup>n\<^sup>-\<^sup>1\<close> and
  \<open>2\<^sup>m\<^sup>-\<^sup>n\<^sup>+\<^sup>1\<close>.
\<close>

definition exponent :: "rat \<Rightarrow> int" where
  "exponent x =
    (let (p, q) = quotient_of \<bar>x\<bar>;
         e = bit_length p - bit_length q
     in if pow2 e \<le> \<bar>x\<bar> then e else e - 1)"

text \<open>The nearest integer, the even one of two that are equally near.\<close>

definition round_half_even :: "rat \<Rightarrow> int" where
  "round_half_even x =
    (let n = \<lfloor>x\<rfloor>; f = x - of_int n
     in if f < 1 / 2 then n else if 1 / 2 < f then n + 1 else if even n then n else n + 1)"

text \<open>
  The floats around \<open>x\<close> are the multiples of \<open>2\<^sup>e\<^sup>-\<^sup>5\<^sup>2\<close> for the exponent \<open>e\<close> of \<open>x\<close>, which
  is taken as \<open>-1022\<close> when it is less (the subnormal floats). A rounded value of \<open>2\<^sup>1\<^sup>0\<^sup>2\<^sup>4\<close>
  or more in magnitude is an infinity.
\<close>

definition round_binary64 :: "rat \<Rightarrow> float" where
  "round_binary64 x =
    (if x = 0 then Finite 0
     else
       (let ulp = pow2 (max (exponent x) (- 1022) - 52);
            y = of_int (round_half_even (x / ulp)) * ulp
        in if pow2 1024 \<le> y then PlusInf
           else if y \<le> - pow2 1024 then MinusInf
           else Finite y))"

subsection \<open>The operations of the interpreter\<close>

text \<open>
  The conversion of an \<^verbatim>\<open>int\<close> operand and the true division of two \<^verbatim>\<open>int\<close>s round
  correctly and raise \<^verbatim>\<open>OverflowError\<close> when the result is not finite.
\<close>

definition float_of_int :: "int \<Rightarrow> error + float" where
  "float_of_int n =
    (case round_binary64 (of_int n) of
       Finite x \<Rightarrow> Inr (Finite x)
     | _ \<Rightarrow> Inl OverflowError)"

definition int_truediv :: "int \<Rightarrow> int \<Rightarrow> error + float" where
  "int_truediv a b =
    (if b = 0 then Inl ZeroDivisionError
     else
       (case round_binary64 (of_int a / of_int b) of
          Finite x \<Rightarrow> Inr (Finite x)
        | _ \<Rightarrow> Inl OverflowError))"

text \<open>
  Addition, subtraction and multiplication of floats raise nothing: a result too large
  is an infinity.
\<close>

fun float_neg :: "float \<Rightarrow> float" where
  "float_neg (Finite x) = Finite (- x)"
| "float_neg PlusInf = MinusInf"
| "float_neg MinusInf = PlusInf"
| "float_neg NaN = NaN"

fun float_add :: "float \<Rightarrow> float \<Rightarrow> float" where
  "float_add (Finite x) (Finite y) = round_binary64 (x + y)"
| "float_add NaN b = NaN"
| "float_add a NaN = NaN"
| "float_add PlusInf MinusInf = NaN"
| "float_add MinusInf PlusInf = NaN"
| "float_add PlusInf b = PlusInf"
| "float_add a PlusInf = PlusInf"
| "float_add MinusInf b = MinusInf"
| "float_add a MinusInf = MinusInf"

definition float_sub :: "float \<Rightarrow> float \<Rightarrow> float" where
  "float_sub a b = float_add a (float_neg b)"

fun float_mul :: "float \<Rightarrow> float \<Rightarrow> float" where
  "float_mul (Finite x) (Finite y) = round_binary64 (x * y)"
| "float_mul NaN b = NaN"
| "float_mul a NaN = NaN"
| "float_mul (Finite x) b = (if x = 0 then NaN else if 0 < x then b else float_neg b)"
| "float_mul a (Finite y) = (if y = 0 then NaN else if 0 < y then a else float_neg a)"
| "float_mul PlusInf b = b"
| "float_mul MinusInf b = float_neg b"

text \<open>The division of floats raises \<^verbatim>\<open>ZeroDivisionError\<close> on a zero divisor only.\<close>

fun float_truediv :: "float \<Rightarrow> float \<Rightarrow> error + float" where
  "float_truediv (Finite x) (Finite y) =
     (if y = 0 then Inl ZeroDivisionError else Inr (round_binary64 (x / y)))"
| "float_truediv NaN b = (if b = Finite 0 then Inl ZeroDivisionError else Inr NaN)"
| "float_truediv a NaN = Inr NaN"
| "float_truediv (Finite x) b = Inr (Finite 0)"
| "float_truediv a (Finite y) =
     (if y = 0 then Inl ZeroDivisionError else if 0 < y then Inr a else Inr (float_neg a))"
| "float_truediv a b = Inr NaN"

fun float_lt :: "float \<Rightarrow> float \<Rightarrow> bool" where
  "float_lt (Finite x) (Finite y) \<longleftrightarrow> x < y"
| "float_lt NaN b \<longleftrightarrow> False"
| "float_lt a NaN \<longleftrightarrow> False"
| "float_lt a MinusInf \<longleftrightarrow> False"
| "float_lt PlusInf b \<longleftrightarrow> False"
| "float_lt a b \<longleftrightarrow> True"

definition float_gt :: "float \<Rightarrow> float \<Rightarrow> bool" where
  "float_gt a b \<longleftrightarrow> float_lt b a"

text \<open>\<^verbatim>\<open>int(x)\<close> truncates a finite float and raises on the others.\<close>

fun int_of_float :: "float \<Rightarrow> error + int" where
  "int_of_float (Finite x) = Inr (py_int x)"
| "int_of_float NaN = Inl ValueError"
| "int_of_float a = Inl OverflowError"

text \<open>A float and an \<^verbatim>\<open>int\<close> operand: the \<^verbatim>\<open>int\<close> is converted first.\<close>

definition float_mul_int :: "float \<Rightarrow> int \<Rightarrow> error + float" where
  "float_mul_int a n =
    (case float_of_int n of Inl e \<Rightarrow> Inl e | Inr b \<Rightarrow> Inr (float_mul a b))"

definition float_truediv_int :: "float \<Rightarrow> int \<Rightarrow> error + float" where
  "float_truediv_int a n =
    (case float_of_int n of Inl e \<Rightarrow> Inl e | Inr b \<Rightarrow> float_truediv a b)"

text \<open>The literals \<^verbatim>\<open>0.25\<close>, which is a float, and \<^verbatim>\<open>0.15\<close>, which is read as the nearest one.\<close>

definition literal_0_25 :: float where
  "literal_0_25 = Finite (1 / 4)"

definition literal_0_15 :: float where
  "literal_0_15 = round_binary64 (3 / 20)"

subsection \<open>The identification of imbalances with its float arithmetic\<close>

text \<open>
  \<^verbatim>\<open>_identify_inventory_imbalances\<close> once more, now with every arithmetic operation as the
  interpreter performs it. The quantities and thresholds are \<^verbatim>\<open>int\<close>s, so the range and
  the difference \<^verbatim>\<open>quantity - min_threshold\<close> are exact and their quotient is a float.
\<close>

definition ratio_b64 :: "stock_level \<Rightarrow> error + float" where
  "ratio_b64 inventory =
     int_truediv (sl_quantity inventory - sl_min_threshold inventory)
       (threshold_range inventory)"

text \<open>
  The first loop. \<^verbatim>\<open>total_ratio\<close> starts as the \<^verbatim>\<open>int\<close> 0, which the first addition
  converts to the float zero.
\<close>

fun ratio_loop_b64 ::
  "(string \<times> stock_level) list \<Rightarrow> float \<times> int \<Rightarrow> error + float \<times> int" where
  "ratio_loop_b64 [] (total_ratio, warehouse_count) = Inr (total_ratio, warehouse_count)"
| "ratio_loop_b64 ((warehouse_id, inventory) # rest) (total_ratio, warehouse_count) =
    (if threshold_range inventory > 0 then
       (case ratio_b64 inventory of
          Inl e \<Rightarrow> Inl e
        | Inr ratio' \<Rightarrow>
            ratio_loop_b64 rest (float_add total_ratio ratio', warehouse_count + 1))
     else ratio_loop_b64 rest (total_ratio, warehouse_count))"

text \<open>
  The two amounts: \<^verbatim>\<open>int((ratio - avg_ratio - 0.15) * threshold_range)\<close> and
  \<^verbatim>\<open>int((avg_ratio - 0.15 - ratio) * threshold_range)\<close>, evaluated from the left.
\<close>

definition excess_amount_b64 :: "float \<Rightarrow> float \<Rightarrow> int \<Rightarrow> error + int" where
  "excess_amount_b64 avg_ratio ratio' threshold_range' =
    (case float_mul_int (float_sub (float_sub ratio' avg_ratio) literal_0_15) threshold_range' of
       Inl e \<Rightarrow> Inl e
     | Inr x \<Rightarrow> int_of_float x)"

definition deficit_amount_b64 :: "float \<Rightarrow> float \<Rightarrow> int \<Rightarrow> error + int" where
  "deficit_amount_b64 avg_ratio ratio' threshold_range' =
    (case float_mul_int (float_sub (float_sub avg_ratio literal_0_15) ratio') threshold_range' of
       Inl e \<Rightarrow> Inl e
     | Inr x \<Rightarrow> int_of_float x)"

text \<open>The second loop.\<close>

fun classify_loop_b64 ::
  "float \<Rightarrow> (string \<times> stock_level) list \<Rightarrow> (string \<times> int) list \<times> (string \<times> int) list
    \<Rightarrow> error + (string \<times> int) list \<times> (string \<times> int) list" where
  "classify_loop_b64 avg_ratio [] (excess_warehouses, deficit_warehouses) =
     Inr (excess_warehouses, deficit_warehouses)"
| "classify_loop_b64 avg_ratio ((warehouse_id, inventory) # rest)
      (excess_warehouses, deficit_warehouses) =
    (if threshold_range inventory > 0 then
       (case ratio_b64 inventory of
          Inl e \<Rightarrow> Inl e
        | Inr ratio' \<Rightarrow>
            (if float_gt ratio' (float_add avg_ratio literal_0_25) then
               (case excess_amount_b64 avg_ratio ratio' (threshold_range inventory) of
                  Inl e \<Rightarrow> Inl e
                | Inr excess_amount \<Rightarrow>
                    (if excess_amount > 0
                     then classify_loop_b64 avg_ratio rest
                            (AList.update warehouse_id excess_amount excess_warehouses,
                             deficit_warehouses)
                     else classify_loop_b64 avg_ratio rest
                            (excess_warehouses, deficit_warehouses)))
             else if float_lt ratio' (float_sub avg_ratio literal_0_25) then
               (case deficit_amount_b64 avg_ratio ratio' (threshold_range inventory) of
                  Inl e \<Rightarrow> Inl e
                | Inr deficit_amount \<Rightarrow>
                    (if deficit_amount > 0
                     then classify_loop_b64 avg_ratio rest
                            (excess_warehouses,
                             AList.update warehouse_id deficit_amount deficit_warehouses)
                     else classify_loop_b64 avg_ratio rest
                            (excess_warehouses, deficit_warehouses)))
             else classify_loop_b64 avg_ratio rest (excess_warehouses, deficit_warehouses)))
     else classify_loop_b64 avg_ratio rest (excess_warehouses, deficit_warehouses))"

text \<open>
  The body of the loop over \<^verbatim>\<open>item_inventory\<close>, in the two parts of \<open>classify_item\<close> and
  \<open>identify_item\<close>; an exception leaves the loop and the function.
\<close>

definition classify_item_b64 ::
  "item_data \<Rightarrow> error + ((string \<times> int) list \<times> (string \<times> int) list) option" where
  "classify_item_b64 data =
    (if length (id_warehouses data) \<le> 1 then Inr None
     else
       (case ratio_loop_b64 (id_warehouses data) (Finite 0, 0) of
          Inl e \<Rightarrow> Inl e
        | Inr (total_ratio, warehouse_count) \<Rightarrow>
            (if warehouse_count = 0 then Inr None
             else
               (case float_truediv_int total_ratio warehouse_count of
                  Inl e \<Rightarrow> Inl e
                | Inr avg_ratio \<Rightarrow>
                    (case classify_loop_b64 avg_ratio (id_warehouses data) ([], []) of
                       Inl e \<Rightarrow> Inl e
                     | Inr dicts \<Rightarrow> Inr (Some dicts))))))"

definition identify_item_b64 :: "item_data \<Rightarrow> error + imbalance option" where
  "identify_item_b64 data =
    (case classify_item_b64 data of
       Inl e \<Rightarrow> Inl e
     | Inr None \<Rightarrow> Inr None
     | Inr (Some (excess_warehouses, deficit_warehouses)) \<Rightarrow>
         (if excess_warehouses \<noteq> [] \<and> deficit_warehouses \<noteq> []
          then Inr (Some \<lparr>im_name = id_name data, im_unit = id_unit data,
                           excess = excess_warehouses, deficit = deficit_warehouses\<rparr>)
          else Inr None))"

fun identify_loop_b64 ::
  "(string \<times> item_data) list \<Rightarrow> (string \<times> imbalance) list
    \<Rightarrow> error + (string \<times> imbalance) list" where
  "identify_loop_b64 [] imbalanced_items = Inr imbalanced_items"
| "identify_loop_b64 ((item, data) # rest) imbalanced_items =
    (case identify_item_b64 data of
       Inl e \<Rightarrow> Inl e
     | Inr None \<Rightarrow> identify_loop_b64 rest imbalanced_items
     | Inr (Some entry) \<Rightarrow>
         identify_loop_b64 rest (AList.update item entry imbalanced_items))"

definition identify_inventory_imbalances_b64 ::
  "(string \<times> Warehouse) list \<Rightarrow> error + (string \<times> imbalance) list" where
  "identify_inventory_imbalances_b64 warehouses =
     identify_loop_b64 (collect_inventory_loop warehouses []) []"

text \<open>\<^verbatim>\<open>_balance_inventory\<close> on the imbalances so identified.\<close>

definition balance_inventory_b64 ::
  "(string \<times> Warehouse) list \<Rightarrow> error + transfer_decision list" where
  "balance_inventory_b64 warehouses =
    (case identify_inventory_imbalances_b64 warehouses of
       Inl e \<Rightarrow> Inl e
     | Inr imbalanced_items \<Rightarrow> balance_loop imbalanced_items [])"

section \<open>Notions used in the statements, and example inputs\<close>

text \<open>
  The definitions from here to the first lemma are not translations of the source. They
  say what the theorems are about (a candidate source, the levels of an item across the
  snapshot, the mean ratio and the amounts in the words of the specification, a balanced
  snapshot, a preserved store), relate the store to the values it holds, or name the
  inputs on which the theorems are run.
\<close>

subsection \<open>Replenishment: candidate sources\<close>

text \<open>
  A candidate source for an item and a destination: another warehouse that stocks the
  item with a positive surplus \<open>quantity - min_threshold\<close>.
\<close>

definition is_candidate_source :: "string \<Rightarrow> string \<Rightarrow> string \<times> Warehouse \<Rightarrow> bool" where
  "is_candidate_source item destination_id p =
    (fst p \<noteq> destination_id \<and>
     (case map_of (wh_items (snd p)) item of
        None \<Rightarrow> False
      | Some it \<Rightarrow> quantity it - min_threshold it > 0))"

text \<open>The entry that \<^verbatim>\<open>_find_inventory_sources\<close> makes for a candidate source.\<close>

definition source_entry :: "string \<Rightarrow> string \<Rightarrow> string \<times> Warehouse \<Rightarrow> string \<times> source_info" where
  "source_entry item destination_id p =
    (fst p, \<lparr>si_warehouse = snd p,
       excess_quantity = (case map_of (wh_items (snd p)) item of
          None \<Rightarrow> 0 | Some it \<Rightarrow> quantity it - min_threshold it),
       distance_to_destination = calculate_distance (fst p) destination_id\<rparr>)"

definition has_candidate_source :: "(string \<times> Warehouse) list \<Rightarrow> alert \<Rightarrow> bool" where
  "has_candidate_source warehouses a =
     list_ex (is_candidate_source (al_item_id a) (al_warehouse_id a)) warehouses"

text \<open>The item object that a warehouse of the mapping holds under an item id.\<close>

definition stock_of :: "(string \<times> Warehouse) list \<Rightarrow> string \<Rightarrow> string \<Rightarrow> InventoryItem option" where
  "stock_of warehouses warehouse_id item =
    (case map_of warehouses warehouse_id of
       None \<Rightarrow> None
     | Some w \<Rightarrow> map_of (wh_items w) item)"

text \<open>The decision made for one alert, if any.\<close>

definition replenish_result :: "(string \<times> Warehouse) list \<Rightarrow> alert \<Rightarrow> transfer_decision option" where
  "replenish_result warehouses a =
     (case replenish_alert warehouses a of Inl e \<Rightarrow> None | Inr r \<Rightarrow> r)"

text \<open>
  Inputs for the instances: three warehouses that stock water with a minimum of 100,
  and an alert of the first one.
\<close>

definition example_item :: "int \<Rightarrow> InventoryItem" where
  "example_item q =
    \<lparr>item_id = ''water'', item_name = ''Water'', item_category = ''supplies'',
     quantity = q, item_unit = ''liters'', min_threshold = 100, max_threshold = 200,
     item_last_updated = None\<rparr>"

definition example_warehouse :: "string \<Rightarrow> int \<Rightarrow> string \<times> Warehouse" where
  "example_warehouse w q =
    (w, \<lparr>wh_id = w, wh_name = w, wh_location = ''here'', wh_capacity = 1000,
         wh_items = [(''water'', example_item q)]\<rparr>)"

definition example_warehouses :: "(string \<times> Warehouse) list" where
  "example_warehouses =
    [example_warehouse ''warehouse_1'' 20, example_warehouse ''warehouse_2'' 150,
     example_warehouse ''warehouse_3'' 190]"

definition example_alert :: "int \<Rightarrow> alert" where
  "example_alert q =
    \<lparr>al_warehouse_id = ''warehouse_1'', al_warehouse_name = ''warehouse_1'',
     al_item_id = ''water'', al_item_name = ''Water'', al_current_quantity = q,
     al_min_threshold = 100, al_unit = ''liters'', al_severity = ''medium''\<rparr>"

subsection \<open>Rerouting: what a decision is sound for\<close>

text \<open>
  Inputs for the instances: shipments from \<open>a\<close> to \<open>b\<close>, issues that name them, route
  conditions that mark the listed routes as disrupted, and the default threshold of 60
  minutes.
\<close>

definition example_shipment :: "string \<Rightarrow> ShipmentStatus \<Rightarrow> int \<Rightarrow> string \<Rightarrow> rat option \<Rightarrow> string \<times> Shipment" where
  "example_shipment sid st p r eta =
    (sid, \<lparr>shp_id = sid, origin = ''a'', destination = ''b'', shp_items = [(''water'', 10)],
      status = st, priority = p, route = r, estimated_arrival = eta,
      actual_arrival = None, shp_last_updated = None\<rparr>)"

definition example_issue :: "string \<Rightarrow> rat \<Rightarrow> issue" where
  "example_issue sid delay =
    \<lparr>iss_shipment_id = sid, iss_origin = ''a'', iss_destination = ''b'',
     iss_status = ''rerouting'', iss_estimated_arrival = 0, iss_delay_minutes = delay,
     iss_priority = 9, iss_severity = ''high''\<rparr>"

definition example_route_conditions :: "string list \<Rightarrow> (string \<times> RouteStatus) list" where
  "example_route_conditions rs =
     map (\<lambda>r. (r, \<lparr>rs_route_id = r, is_disrupted = True, rs_last_updated = None\<rparr>)) rs"

definition example_config :: AgentConfig where
  "example_config = \<lparr>reroute_delay_threshold_minutes = 60\<rparr>"

text \<open>
  What a decision owes to the issue it was made for: the shipment and its current route,
  and a new route taken from the alternatives found for the shipment, disrupted only if
  all of them are.
\<close>

definition reroute_sound ::
  "(string \<times> Shipment) list \<Rightarrow> (string \<times> RouteStatus) list \<Rightarrow> issue list \<Rightarrow> reroute_decision \<Rightarrow> bool" where
  "reroute_sound act rc issues d \<longleftrightarrow>
    (\<exists>i \<in> set issues. \<exists>s r now. rd_shipment_id d = iss_shipment_id i \<and>
       map_of act (iss_shipment_id i) = Some s \<and> old_route d = route s \<and>
       new_route d = route_id r \<and> new_eta d = ar_estimated_arrival r \<and>
       r \<in> set (find_alternative_routes now (origin s) (destination s) (route s)) \<and>
       (route_disrupted rc (route_id r) \<longrightarrow>
         (\<forall>r' \<in> set (find_alternative_routes now (origin s) (destination s) (route s)).
            route_disrupted rc (route_id r'))))"

subsection \<open>Balancing: quantities drawn from a source\<close>

text \<open>The sum of the quantities of an item over the decisions drawn from a source.\<close>

definition transferred_from :: "string \<Rightarrow> string \<Rightarrow> transfer_decision list \<Rightarrow> rat" where
  "transferred_from item src ds =
     sum_list (map ti_quantity
       (filter (\<lambda>it. ti_id it = item)
          (concat (map td_items (filter (\<lambda>d. source_warehouse d = src) ds)))))"

text \<open>The amount a dictionary holds for a warehouse, 0 for a warehouse it does not hold.\<close>

definition amount_of :: "(string \<times> int) list \<Rightarrow> string \<Rightarrow> int" where
  "amount_of amounts k = (case map_of amounts k of None \<Rightarrow> 0 | Some a \<Rightarrow> a)"

text \<open>
  The excess amount that \<^verbatim>\<open>_identify_inventory_imbalances\<close> computes for a warehouse and
  an item, 0 where it records none.
\<close>

definition computed_excess :: "(string \<times> Warehouse) list \<Rightarrow> string \<Rightarrow> string \<Rightarrow> int" where
  "computed_excess warehouses item src =
    (case map_of (identify_inventory_imbalances warehouses) item of
       None \<Rightarrow> 0
     | Some entry \<Rightarrow> amount_of (excess entry) src)"

text \<open>The invariant of the remaining excess: distinct warehouses, no negative amount.\<close>

definition amounts_ok :: "(string \<times> int) list \<Rightarrow> bool" where
  "amounts_ok al \<longleftrightarrow> distinct (map fst al) \<and> (\<forall>p \<in> set al. snd p \<ge> 0)"

text \<open>Inputs for the instances: warehouses that stock one item \<open>X\<close>.\<close>

definition scenario_item :: "int \<Rightarrow> int \<Rightarrow> int \<Rightarrow> InventoryItem" where
  "scenario_item q lo hi =
    \<lparr>item_id = ''X'', item_name = ''X'', item_category = ''supplies'',
     quantity = q, item_unit = ''units'', min_threshold = lo, max_threshold = hi,
     item_last_updated = None\<rparr>"

definition scenario_warehouse :: "string \<Rightarrow> int \<Rightarrow> int \<Rightarrow> int \<Rightarrow> string \<times> Warehouse" where
  "scenario_warehouse w q lo hi =
    (w, \<lparr>wh_id = w, wh_name = w, wh_location = ''here'', wh_capacity = 1000,
         wh_items = [(''X'', scenario_item q lo hi)]\<rparr>)"

subsection \<open>Balancing: the levels of an item across the snapshot\<close>

text \<open>
  The levels of an item across the snapshot: for each warehouse that stocks it, in the
  order of the mapping, the quantity and the two thresholds.
\<close>

definition level_of :: "InventoryItem \<Rightarrow> stock_level" where
  "level_of it =
     \<lparr>sl_quantity = quantity it, sl_min_threshold = min_threshold it,
      sl_max_threshold = max_threshold it\<rparr>"

definition holdings :: "(string \<times> Warehouse) list \<Rightarrow> string \<Rightarrow> (string \<times> stock_level) list" where
  "holdings warehouses item =
     concat (map (\<lambda>p. case map_of (wh_items (snd p)) item of
                          None \<Rightarrow> []
                        | Some it \<Rightarrow> [(fst p, level_of it)]) warehouses)"

text \<open>A well-formed mapping: no warehouse id twice, and no item id twice in a warehouse.\<close>

definition wf_warehouses :: "(string \<times> Warehouse) list \<Rightarrow> bool" where
  "wf_warehouses warehouses \<longleftrightarrow>
     distinct (map fst warehouses) \<and>
     list_all (\<lambda>p. distinct (map fst (wh_items (snd p)))) warehouses"

text \<open>The levels collected so far for an item, and the invariant of the collection.\<close>

definition levels_of :: "(string \<times> item_data) list \<Rightarrow> string \<Rightarrow> (string \<times> stock_level) list" where
  "levels_of item_inventory item =
     (case map_of item_inventory item of None \<Rightarrow> [] | Some data \<Rightarrow> id_warehouses data)"

definition inventory_ok :: "(string \<times> item_data) list \<Rightarrow> bool" where
  "inventory_ok item_inventory \<longleftrightarrow>
     distinct (map fst item_inventory) \<and>
     (\<forall>p \<in> set item_inventory. id_warehouses (snd p) \<noteq> [])"

text \<open>
  In the words of the specification: the warehouses with a positive range, the mean of
  their ratios, and the two amounts as floors.
\<close>

definition valid_levels :: "(string \<times> stock_level) list \<Rightarrow> (string \<times> stock_level) list" where
  "valid_levels levels = filter (\<lambda>p. threshold_range (snd p) > 0) levels"

definition spec_mean_ratio :: "(string \<times> stock_level) list \<Rightarrow> rat" where
  "spec_mean_ratio levels =
     sum_list (map (\<lambda>p. ratio (snd p)) (valid_levels levels)) /
     of_nat (length (valid_levels levels))"

definition spec_excess_amount :: "rat \<Rightarrow> stock_level \<Rightarrow> int" where
  "spec_excess_amount avg lvl = \<lfloor>(ratio lvl - avg - 3 / 20) * of_int (threshold_range lvl)\<rfloor>"

definition spec_deficit_amount :: "rat \<Rightarrow> stock_level \<Rightarrow> int" where
  "spec_deficit_amount avg lvl = \<lfloor>(avg - 3 / 20 - ratio lvl) * of_int (threshold_range lvl)\<rfloor>"

text \<open>When the source records a warehouse in one of the two dictionaries.\<close>

definition recorded_excess :: "rat \<Rightarrow> stock_level \<Rightarrow> bool" where
  "recorded_excess avg lvl \<longleftrightarrow>
     0 < threshold_range lvl \<and> avg + 1 / 4 < ratio lvl \<and> 0 < spec_excess_amount avg lvl"

definition recorded_deficit :: "rat \<Rightarrow> stock_level \<Rightarrow> bool" where
  "recorded_deficit avg lvl \<longleftrightarrow>
     0 < threshold_range lvl \<and> ratio lvl < avg - 1 / 4 \<and> 0 < spec_deficit_amount avg lvl"

text \<open>
  A balanced snapshot: for every item id of the snapshot held by more than one warehouse,
  the ratio of every warehouse with a positive range is within 0.25 of the mean ratio.
\<close>

definition all_items :: "(string \<times> Warehouse) list \<Rightarrow> string list" where
  "all_items warehouses = concat (map (\<lambda>p. map fst (wh_items (snd p))) warehouses)"

definition balanced :: "(string \<times> Warehouse) list \<Rightarrow> bool" where
  "balanced warehouses \<longleftrightarrow>
     list_all
       (\<lambda>item. 1 < length (holdings warehouses item) \<longrightarrow>
          list_all
            (\<lambda>p. 0 < threshold_range (snd p) \<longrightarrow>
               \<bar>ratio (snd p) - spec_mean_ratio (holdings warehouses item)\<bar> \<le> 1 / 4)
            (holdings warehouses item))
       (all_items warehouses)"

subsection \<open>Consolidation plans and staggered slots\<close>

text \<open>
  A revised arrival time for a shipment in transit: the clock reading plus nine tenths
  of the time left to its estimated arrival. A plan of candidates pairs such times with
  the ids of shipments taken from a given set.
\<close>

definition revised_eta :: "rat \<Rightarrow> Shipment \<Rightarrow> rat \<Rightarrow> bool" where
  "revised_eta now s e \<longleftrightarrow>
     status s = IN_TRANSIT \<and>
     (\<exists>eta. estimated_arrival s = Some eta \<and> e = now + 9 / 10 * (eta - now))"

definition plan_of_candidates ::
  "(nat \<Rightarrow> rat) \<Rightarrow> Shipment set \<Rightarrow> route_optimization \<Rightarrow> bool" where
  "plan_of_candidates clock shipments r \<longleftrightarrow>
     (\<exists>candidates tick. set candidates \<subseteq> shipments \<and>
        ro_shipment_ids r = map shp_id candidates \<and>
        list_all2 (revised_eta (clock tick)) candidates (new_etas r))"

text \<open>
  The slot number \<open>i\<close> of a group, and the start of the slots: the later of 09:00 on
  the day of the earliest estimated arrival and that arrival.
\<close>

definition stagger_slot :: "rat \<Rightarrow> nat \<Rightarrow> schedule" where
  "stagger_slot start_time i =
     \<lparr>sch_estimated_arrival = start_time + hours (of_nat i * 2),
      delivery_window_start = start_time + hours (of_nat i * 2) - minutes 30,
      delivery_window_end = start_time + hours (of_nat i * 2) + minutes 30\<rparr>"

definition stagger_start :: "Shipment list \<Rightarrow> rat" where
  "stagger_start shipments =
     (let earliest = Min (set (List.map_filter estimated_arrival shipments))
      in max (nine_am (date_of earliest)) earliest)"

text \<open>Inputs for the instances: a shipment from \<open>a\<close> to a given destination.\<close>

definition shipment_to ::
  "string \<Rightarrow> string \<Rightarrow> ShipmentStatus \<Rightarrow> int \<Rightarrow> rat option \<Rightarrow> string \<times> Shipment" where
  "shipment_to sid dest st p eta =
    (sid, \<lparr>shp_id = sid, origin = ''a'', destination = dest, shp_items = [(''water'', 10)],
      status = st, priority = p, route = ''r0'', estimated_arrival = eta,
      actual_arrival = None, shp_last_updated = None\<rparr>)"

subsection \<open>The store: abstraction to values, and preservation\<close>

text \<open>
  The address holds a dictionary of amounts. The entry of an item on values, read off
  the store; the addresses that a list of entries refers to; and their invariant: no
  address twice, all past \<open>base\<close>, all holding dictionaries of amounts.
\<close>

definition is_amounts :: "obj list \<Rightarrow> nat \<Rightarrow> bool" where
  "is_amounts st a \<longleftrightarrow> (\<exists>al. deref st a = Some (AmountDict al))"

definition abs_entry :: "obj list \<Rightarrow> imbalance_ref \<Rightarrow> imbalance" where
  "abs_entry st ir =
     \<lparr>im_name = imr_name ir, im_unit = imr_unit ir,
      excess = amounts_at st (excess_ref ir), deficit = amounts_at st (deficit_ref ir)\<rparr>"

definition abs_entries :: "obj list \<Rightarrow> (string \<times> imbalance_ref) list \<Rightarrow> (string \<times> imbalance) list" where
  "abs_entries st acc = map (\<lambda>p. (fst p, abs_entry st (snd p))) acc"

definition refs_of :: "(string \<times> imbalance_ref) list \<Rightarrow> nat list" where
  "refs_of acc = concat (map (\<lambda>p. [excess_ref (snd p), deficit_ref (snd p)]) acc)"

definition refs_ok :: "nat \<Rightarrow> obj list \<Rightarrow> (string \<times> imbalance_ref) list \<Rightarrow> bool" where
  "refs_ok base st acc \<longleftrightarrow>
     distinct (refs_of acc) \<and> (\<forall>a \<in> set (refs_of acc). base \<le> a \<and> is_amounts st a)"

text \<open>Every object that the store held before is the same object after.\<close>

definition preserved :: "obj list \<Rightarrow> obj list \<Rightarrow> bool" where
  "preserved st st' \<longleftrightarrow> length st \<le> length st' \<and> (\<forall>a < length st. st' ! a = st ! a)"

text \<open>
  Inputs for the instances: a store with the warehouse mapping at address 0 (two
  warehouses that stock \<open>X\<close>), and empty shipment and route mappings at 7 and 8.
\<close>

definition example_store :: "int \<Rightarrow> int \<Rightarrow> obj list" where
  "example_store qa qb =
    [RefDict [(''A'', 1), (''B'', 4)],
     WarehouseObj ''A'' ''A'' ''here'' 1000 2,
     RefDict [(''X'', 3)],
     ItemObj (scenario_item qa 100 200),
     WarehouseObj ''B'' ''B'' ''here'' 1000 5,
     RefDict [(''X'', 6)],
     ItemObj (scenario_item qb 100 200),
     RefDict [],
     RefDict []]"

subsection \<open>Balancing: the classification in float arithmetic\<close>

text \<open>
  The ratios of the given levels in the order of the mapping, and the mean as the source
  computes it: the ratios of the warehouses with a positive range are added from the
  left, starting from zero, and the total is divided by their number.
\<close>

fun ratios_b64 :: "(string \<times> stock_level) list \<Rightarrow> error + float list" where
  "ratios_b64 [] = Inr []"
| "ratios_b64 (p # levels) =
    (case ratio_b64 (snd p) of
       Inl e \<Rightarrow> Inl e
     | Inr r \<Rightarrow> (case ratios_b64 levels of Inl e \<Rightarrow> Inl e | Inr rs \<Rightarrow> Inr (r # rs)))"

definition mean_b64 :: "(string \<times> stock_level) list \<Rightarrow> error + float" where
  "mean_b64 levels =
    (case ratios_b64 (valid_levels levels) of
       Inl e \<Rightarrow> Inl e
     | Inr rs \<Rightarrow> float_truediv_int (foldl float_add (Finite 0) rs) (int (length rs)))"

text \<open>
  The amount recorded for a level in the dictionary of excess, and in the dictionary of
  deficit, if any.
\<close>

definition excess_entry_b64 :: "float \<Rightarrow> stock_level \<Rightarrow> int option" where
  "excess_entry_b64 avg lvl =
    (if 0 < threshold_range lvl then
       (case ratio_b64 lvl of
          Inl e \<Rightarrow> None
        | Inr r \<Rightarrow>
            (if float_gt r (float_add avg literal_0_25) then
               (case excess_amount_b64 avg r (threshold_range lvl) of
                  Inl e \<Rightarrow> None
                | Inr a \<Rightarrow> if 0 < a then Some a else None)
             else None))
     else None)"

definition deficit_entry_b64 :: "float \<Rightarrow> stock_level \<Rightarrow> int option" where
  "deficit_entry_b64 avg lvl =
    (if 0 < threshold_range lvl then
       (case ratio_b64 lvl of
          Inl e \<Rightarrow> None
        | Inr r \<Rightarrow>
            (if float_lt r (float_sub avg literal_0_25) then
               (case deficit_amount_b64 avg r (threshold_range lvl) of
                  Inl e \<Rightarrow> None
                | Inr a \<Rightarrow> if 0 < a then Some a else None)
             else None))
     else None)"

subsection \<open>Floats and levels of bounded size\<close>

text \<open>A finite float of magnitude at most \<open>2\<^sup>k\<close>.\<close>

definition float_within :: "int \<Rightarrow> float \<Rightarrow> bool" where
  "float_within k a \<longleftrightarrow> (case a of Finite y \<Rightarrow> \<bar>y\<bar> \<le> pow2 k | _ \<Rightarrow> False)"

text \<open>
  Levels of moderate size: at most 800 warehouses, with quantities and thresholds of
  magnitude at most \<open>2\<^sup>6\<^sup>3\<close>.
\<close>

definition moderate_level :: "stock_level \<Rightarrow> bool" where
  "moderate_level lvl \<longleftrightarrow>
     \<bar>sl_quantity lvl\<bar> \<le> 2 ^ 63 \<and> \<bar>sl_min_threshold lvl\<bar> \<le> 2 ^ 63 \<and>
     \<bar>sl_max_threshold lvl\<bar> \<le> 2 ^ 63"

definition moderate_levels :: "(string \<times> stock_level) list \<Rightarrow> bool" where
  "moderate_levels levels \<longleftrightarrow>
     length levels \<le> 800 \<and> list_all (\<lambda>p. moderate_level (snd p)) levels"

text \<open>The rounded value before the test for overflow.\<close>

definition round_unbounded :: "rat \<Rightarrow> rat" where
  "round_unbounded x =
    (if x = 0 then 0
     else
       (let ulp = pow2 (max (exponent x) (- 1022) - 52)
        in of_int (round_half_even (x / ulp)) * ulp))"

section \<open>Replenishment: the transfer quantity\<close>

lemma update_fresh: "k \<notin> fst ` set al \<Longrightarrow> AList.update k v al = al @ [(k, v)]"
  by (induction al) auto

lemma find_inventory_sources_loop_eq:
  "distinct (map fst ws) \<Longrightarrow> fst ` set acc \<inter> fst ` set ws = {} \<Longrightarrow>
   find_inventory_sources_loop item dest ws acc =
     acc @ map (source_entry item dest) (filter (is_candidate_source item dest) ws)"
proof (induction ws arbitrary: acc)
  case Nil
  then show ?case by simp
next
  case (Cons p ws)
  obtain wid w where p: "p = (wid, w)" by (cases p)
  have d: "distinct (map fst ws)" and nin: "wid \<notin> fst ` set ws" and nacc: "wid \<notin> fst ` set acc"
    and disj: "fst ` set acc \<inter> fst ` set ws = {}"
    using Cons.prems by (auto simp: p)
  show ?case
  proof (cases "is_candidate_source item dest p")
    case False
    then have "find_inventory_sources_loop item dest (p # ws) acc =
        find_inventory_sources_loop item dest ws acc"
      by (auto simp: p is_candidate_source_def split: option.splits)
    then show ?thesis using False Cons.IH[OF d disj] by simp
  next
    case True
    then obtain it where it: "map_of (wh_items w) item = Some it" "quantity it - min_threshold it > 0"
      "wid \<noteq> dest"
      by (auto simp: p is_candidate_source_def split: option.splits)
    let ?e = "source_entry item dest p"
    have step: "find_inventory_sources_loop item dest (p # ws) acc =
        find_inventory_sources_loop item dest ws (acc @ [?e])"
      using it nacc by (simp add: p source_entry_def update_fresh)
    have "fst ` set (acc @ [?e]) \<inter> fst ` set ws = {}"
      using disj nin by (auto simp: source_entry_def p)
    from Cons.IH[OF d this] step True show ?thesis by simp
  qed
qed

lemma find_inventory_sources_eq:
  "distinct (map fst ws) \<Longrightarrow>
   find_inventory_sources ws item dest =
     map (source_entry item dest) (filter (is_candidate_source item dest) ws)"
  by (simp add: find_inventory_sources_def find_inventory_sources_loop_eq)

lemma select_best_inventory_source_mem:
  "srcs \<noteq> [] \<Longrightarrow> \<exists>s \<in> set srcs. select_best_inventory_source srcs dest = Some (fst s)"
proof -
  assume ne: "srcs \<noteq> []"
  let ?ss = "sort_key (\<lambda>x. (distance_to_destination (snd x), - excess_quantity (snd x))) srcs"
  have "length ?ss = length srcs" by simp
  with ne obtain s rest where ss: "?ss = s # rest" by (cases ?ss) auto
  have "s \<in> set ?ss" by (simp add: ss)
  then have "s \<in> set srcs" by simp
  moreover have "select_best_inventory_source srcs dest = Some (fst s)"
    by (simp add: select_best_inventory_source_def ss)
  ultimately show ?thesis by blast
qed

lemma replenish_alert_no_candidate:
  assumes "distinct (map fst ws)" "\<not> has_candidate_source ws a"
  shows "replenish_alert ws a = Inr None"
proof -
  have "filter (is_candidate_source (al_item_id a) (al_warehouse_id a)) ws = []"
    using assms(2) by (auto simp: has_candidate_source_def list_ex_iff filter_empty_conv)
  then show ?thesis
    using assms(1) by (simp add: replenish_alert_def find_inventory_sources_eq)
qed

lemma replenish_alert_candidate:
  assumes dist: "distinct (map fst ws)" and cand: "has_candidate_source ws a"
  shows "\<exists>d it. replenish_alert ws a = Inr (Some d) \<and>
           stock_of ws (source_warehouse d) (al_item_id a) = Some it \<and>
           source_warehouse d \<noteq> al_warehouse_id a \<and>
           0 < quantity it - min_threshold it \<and>
           destination_warehouse d = al_warehouse_id a \<and>
           td_items d =
             [\<lparr>ti_id = al_item_id a, ti_name = al_item_name a,
               ti_quantity = min (3 / 2 * of_int (al_min_threshold a) - of_int (al_current_quantity a))
                                 (of_int (quantity it - min_threshold it)),
               ti_unit = al_unit a\<rparr>] \<and>
           td_reason d = ''inventory_below_threshold'' \<and>
           td_priority d = (if al_severity a = ''high'' then 8 else 5)"
proof -
  let ?item = "al_item_id a" and ?dest = "al_warehouse_id a"
  let ?cs = "filter (is_candidate_source ?item ?dest) ws"
  let ?srcs = "find_inventory_sources ws ?item ?dest"
  have srcs: "?srcs = map (source_entry ?item ?dest) ?cs"
    using dist by (rule find_inventory_sources_eq)
  have "?cs \<noteq> []"
    using cand by (auto simp: has_candidate_source_def list_ex_iff filter_empty_conv)
  then have ne: "?srcs \<noteq> []" by (simp add: srcs)
  from select_best_inventory_source_mem[OF ne, of ?dest]
  obtain s where s: "s \<in> set ?srcs" "select_best_inventory_source ?srcs ?dest = Some (fst s)"
    by blast
  from s(1) obtain p where p: "p \<in> set ws" "is_candidate_source ?item ?dest p"
      "s = source_entry ?item ?dest p"
    by (auto simp: srcs)
  obtain it where it: "map_of (wh_items (snd p)) ?item = Some it"
      "0 < quantity it - min_threshold it" "fst p \<noteq> ?dest"
    using p(2) by (auto simp: is_candidate_source_def split: option.splits)
  have mo: "map_of ws (fst p) = Some (snd p)"
    using dist p(1) by (cases p) simp
  have dsrc: "distinct (map fst ?srcs)"
    using dist by (simp add: srcs source_entry_def comp_def distinct_map_filter)
  have look: "map_of ?srcs (fst s) = Some (snd s)"
    using dsrc s(1) by (cases s) simp
  have ex: "excess_quantity (snd s) = quantity it - min_threshold it"
    by (simp add: p(3) source_entry_def it(1))
  have fs: "fst s = fst p" by (simp add: p(3) source_entry_def)
  have st: "stock_of ws (fst p) ?item = Some it"
    by (simp add: stock_of_def mo it(1))
  define d where "d = \<lparr>source_warehouse = fst p,
              destination_warehouse = al_warehouse_id a,
              td_items =
                [\<lparr>ti_id = al_item_id a, ti_name = al_item_name a,
                  ti_quantity = min (3 / 2 * of_int (al_min_threshold a) - of_int (al_current_quantity a))
                                    (of_int (quantity it - min_threshold it)),
                  ti_unit = al_unit a\<rparr>],
              td_reason = ''inventory_below_threshold'',
              td_priority = (if al_severity a = ''high'' then (8::int) else 5)\<rparr>"
  have "replenish_alert ws a = Inr (Some d)"
    unfolding replenish_alert_def Let_def d_def using ne s(2) look ex fs
    by (simp add: min_def mult.commute)
  moreover have "source_warehouse d = fst p" "destination_warehouse d = al_warehouse_id a"
    "td_items d =
             [\<lparr>ti_id = al_item_id a, ti_name = al_item_name a,
               ti_quantity = min (3 / 2 * of_int (al_min_threshold a) - of_int (al_current_quantity a))
                                 (of_int (quantity it - min_threshold it)),
               ti_unit = al_unit a\<rparr>]"
    "td_reason d = ''inventory_below_threshold''"
    "td_priority d = (if al_severity a = ''high'' then 8 else 5)"
    by (simp_all add: d_def)
  ultimately show ?thesis using st it(2,3) by metis
qed

lemma replenishment_loop_eq:
  "distinct (map fst ws) \<Longrightarrow>
   replenishment_loop ws alerts acc = Inr (acc @ List.map_filter (replenish_result ws) alerts)"
proof (induction alerts arbitrary: acc)
  case Nil
  then show ?case by simp
next
  case (Cons a alerts)
  show ?case
  proof (cases "has_candidate_source ws a")
    case False
    then have "replenish_alert ws a = Inr None"
      using Cons.prems by (simp add: replenish_alert_no_candidate)
    then show ?thesis using Cons by (simp add: replenish_result_def)
  next
    case True
    from replenish_alert_candidate[OF Cons.prems True]
    obtain d where "replenish_alert ws a = Inr (Some d)" by blast
    then show ?thesis using Cons by (simp add: replenish_result_def)
  qed
qed

lemma map_filter_all2:
  "(\<And>a d. f a = Some d \<Longrightarrow> P a d) \<Longrightarrow> (\<And>a. Q a \<longleftrightarrow> f a \<noteq> None) \<Longrightarrow>
   list_all2 P (filter Q xs) (List.map_filter f xs)"
  by (induction xs) (auto split: option.splits)

lemma replenish_result_iff:
  assumes "distinct (map fst ws)"
  shows "has_candidate_source ws a \<longleftrightarrow> replenish_result ws a \<noteq> None"
proof (cases "has_candidate_source ws a")
  case True
  from replenish_alert_candidate[OF assms True] show ?thesis
    using True by (auto simp: replenish_result_def)
next
  case False
  from replenish_alert_no_candidate[OF assms False] show ?thesis
    using False by (simp add: replenish_result_def)
qed

text \<open>
  Claim C2. Every alert for which a candidate source exists gets one decision, in the
  order of the alerts, and the quantity of its single item is the smaller of
  \<open>1.5 \<times> min_threshold - current_quantity\<close> (of the alert) and the surplus
  \<open>quantity - min_threshold\<close> of the item at the selected source warehouse. Alerts
  without a candidate source get no decision, and the call raises nothing.
\<close>

theorem replenishment_transfer_quantity:
  assumes "distinct (map fst warehouses)"
  shows "\<exists>ds. evaluate_inventory_replenishment warehouses alerts = Inr ds \<and>
    list_all2
      (\<lambda>a d. destination_warehouse d = al_warehouse_id a \<and>
         (\<exists>it. stock_of warehouses (source_warehouse d) (al_item_id a) = Some it \<and>
            map ti_quantity (td_items d) =
              [min (3 / 2 * of_int (al_min_threshold a) - of_int (al_current_quantity a))
                   (of_int (quantity it - min_threshold it))]))
      (filter (has_candidate_source warehouses) alerts) ds"
proof -
  let ?P = "\<lambda>a d. destination_warehouse d = al_warehouse_id a \<and>
         (\<exists>it. stock_of warehouses (source_warehouse d) (al_item_id a) = Some it \<and>
            map ti_quantity (td_items d) =
              [min (3 / 2 * of_int (al_min_threshold a) - of_int (al_current_quantity a))
                   (of_int (quantity it - min_threshold it))])"
  have eq: "evaluate_inventory_replenishment warehouses alerts =
      Inr (List.map_filter (replenish_result warehouses) alerts)"
    using assms by (simp add: evaluate_inventory_replenishment_def replenishment_loop_eq)
  have one: "?P a d" if "replenish_result warehouses a = Some d" for a d
  proof -
    have "has_candidate_source warehouses a"
      using that replenish_result_iff[OF assms, of a] by simp
    from replenish_alert_candidate[OF assms this] that show ?thesis
      by (auto simp: replenish_result_def)
  qed
  have "list_all2 ?P (filter (has_candidate_source warehouses) alerts)
          (List.map_filter (replenish_result warehouses) alerts)"
    by (rule map_filter_all2) (use one replenish_result_iff[OF assms] in blast)+
  with eq show ?thesis by blast
qed

text \<open>
  An instance: warehouse 2 is nearer to warehouse 1 than warehouse 3 is, and its surplus
  of 50 caps the 130 units that would bring the stock to 150.
\<close>

theorem replenishment_transfer_quantity_witness:
  "distinct (map fst example_warehouses) \<and>
   filter (has_candidate_source example_warehouses) [example_alert 20] = [example_alert 20] \<and>
   (\<exists>ds. evaluate_inventory_replenishment example_warehouses [example_alert 20] = Inr ds \<and>
      map source_warehouse ds = [''warehouse_2''] \<and>
      map (map ti_quantity \<circ> td_items) ds = [[min (3 / 2 * 100 - 20) (150 - 100)]])"
  using replenishment_transfer_quantity [of example_warehouses "[example_alert 20]"]
  by (simp add: example_warehouses_def example_warehouse_def example_item_def example_alert_def
      has_candidate_source_def is_candidate_source_def evaluate_inventory_replenishment_def
      replenish_alert_def find_inventory_sources_def select_best_inventory_source_def
      calculate_distance_def distance_matrix_def)

text \<open>
  Claim C9. An alert with a candidate source gets a decision also when its current
  quantity is at least \<open>1.5 \<times> min_threshold\<close>; the quantity transferred is then
  \<open>1.5 \<times> min_threshold - current_quantity\<close>, which is zero or negative: the
  source's surplus is positive and so never the smaller of the two.
\<close>

theorem replenishment_no_positivity_guard:
  assumes "distinct (map fst warehouses)"
    and "a \<in> set alerts"
    and "has_candidate_source warehouses a"
    and "3 / 2 * of_int (al_min_threshold a) \<le> (of_int (al_current_quantity a) :: rat)"
  shows "\<exists>ds d. evaluate_inventory_replenishment warehouses alerts = Inr ds \<and> d \<in> set ds \<and>
     destination_warehouse d = al_warehouse_id a \<and>
     map ti_id (td_items d) = [al_item_id a] \<and>
     map ti_quantity (td_items d) =
       [3 / 2 * of_int (al_min_threshold a) - of_int (al_current_quantity a)] \<and>
     list_all (\<lambda>q. q \<le> 0) (map ti_quantity (td_items d))"
proof -
  have eq: "evaluate_inventory_replenishment warehouses alerts =
      Inr (List.map_filter (replenish_result warehouses) alerts)"
    using assms(1) by (simp add: evaluate_inventory_replenishment_def replenishment_loop_eq)
  from replenish_alert_candidate[OF assms(1,3)]
  obtain d and it :: InventoryItem where it: "0 < quantity it - min_threshold it"
    and d: "replenish_alert warehouses a = Inr (Some d)"
    and dest: "destination_warehouse d = al_warehouse_id a"
    and items: "td_items d =
             [\<lparr>ti_id = al_item_id a, ti_name = al_item_name a,
               ti_quantity = min (3 / 2 * of_int (al_min_threshold a) - of_int (al_current_quantity a))
                                 (of_int (quantity it - min_threshold it)),
               ti_unit = al_unit a\<rparr>]"
    by blast
  have neg: "3 / 2 * of_int (al_min_threshold a) - of_int (al_current_quantity a) \<le> (0::rat)"
    using assms(4) by simp
  have pos: "(0::rat) < of_int (quantity it - min_threshold it)"
    using it by simp
  have q: "min (3 / 2 * of_int (al_min_threshold a) - of_int (al_current_quantity a))
             (of_int (quantity it - min_threshold it)) =
           3 / 2 * of_int (al_min_threshold a) - (of_int (al_current_quantity a) :: rat)"
    using neg pos by (simp add: min_def)
  have "replenish_result warehouses a = Some d"
    using d by (simp add: replenish_result_def)
  then have mem: "d \<in> set (List.map_filter (replenish_result warehouses) alerts)"
    using assms(2) by (auto simp: List.map_filter_def intro!: image_eqI[where x = a])
  have props: "destination_warehouse d = al_warehouse_id a \<and>
     map ti_id (td_items d) = [al_item_id a] \<and>
     map ti_quantity (td_items d) =
       [3 / 2 * of_int (al_min_threshold a) - of_int (al_current_quantity a)] \<and>
     list_all (\<lambda>q. q \<le> 0) (map ti_quantity (td_items d))"
    using q neg dest by (simp add: items)
  show ?thesis
    by (rule exI[of _ "List.map_filter (replenish_result warehouses) alerts"], rule exI[of _ d])
       (use eq mem props in blast)
qed

text \<open>An instance: a stock of 170 against a minimum of 100 yields a transfer of -20.\<close>

theorem replenishment_no_positivity_guard_witness:
  "distinct (map fst example_warehouses) \<and> example_alert 170 \<in> set [example_alert 170] \<and>
   has_candidate_source example_warehouses (example_alert 170) \<and>
   3 / 2 * of_int (al_min_threshold (example_alert 170))
      \<le> (of_int (al_current_quantity (example_alert 170)) :: rat) \<and>
   (\<exists>ds. evaluate_inventory_replenishment example_warehouses [example_alert 170] = Inr ds \<and>
      map (map ti_quantity \<circ> td_items) ds = [[- 20]])"
  using replenishment_no_positivity_guard
    [of example_warehouses "example_alert 170" "[example_alert 170]"]
  by (simp add: example_warehouses_def example_warehouse_def example_item_def example_alert_def
      has_candidate_source_def is_candidate_source_def evaluate_inventory_replenishment_def
      replenish_alert_def find_inventory_sources_def select_best_inventory_source_def
      calculate_distance_def distance_matrix_def)

section \<open>Rerouting: the route selected\<close>

lemma find_alternative_routes_not_current:
  "r \<in> set (find_alternative_routes now orig dest cur) \<Longrightarrow> route_id r \<noteq> cur"
  unfolding find_alternative_routes_def Let_def set_filter by (elim CollectE conjE)

lemma hd_sort_key_mem:
  "xs \<noteq> [] \<Longrightarrow> \<exists>x \<in> set xs. \<exists>rest. sort_key f xs = x # rest"
proof -
  assume "xs \<noteq> []"
  then have "sort_key f xs \<noteq> []"
    by (metis length_0_conv length_sort)
  then obtain x rest where s: "sort_key f xs = x # rest" by (cases "sort_key f xs") auto
  have "x \<in> set xs"
    using s by (metis list.set_intros(1) set_sort)
  then show ?thesis using s by blast
qed

lemma select_best_route_sound:
  assumes "alts \<noteq> []"
  shows "\<exists>r \<in> set alts. select_best_route alts p rc = Inr (route_id r, ar_estimated_arrival r) \<and>
           (route_disrupted rc (route_id r) \<longrightarrow>
              (\<forall>r' \<in> set alts. route_disrupted rc (route_id r')))"
proof -
  let ?valid = "filter (\<lambda>r. \<not> route_disrupted rc (route_id r)) alts"
  let ?v = "if ?valid = [] then alts else ?valid"
  let ?f1 = "estimated_duration_hours :: alternative_route \<Rightarrow> rat"
  let ?f2 = "\<lambda>x :: alternative_route. (estimated_duration_hours x, fuel_consumption_liters x)"
  let ?f3 = "fuel_consumption_liters :: alternative_route \<Rightarrow> int"
  let ?sorted = "if p \<ge> 8 then sort_key ?f1 ?v else if p \<ge> 5 then sort_key ?f2 ?v
                 else sort_key ?f3 ?v"
  have vne: "?v \<noteq> []" using assms by simp
  have "\<exists>x \<in> set ?v. \<exists>rest. ?sorted = x # rest"
    using hd_sort_key_mem[OF vne, of ?f1] hd_sort_key_mem[OF vne, of ?f2]
      hd_sort_key_mem[OF vne, of ?f3]
    by (simp split: if_splits)
  then obtain x rest where x: "x \<in> set ?v" "?sorted = x # rest" by blast
  have sel: "select_best_route alts p rc = Inr (route_id x, ar_estimated_arrival x)"
    unfolding select_best_route_def Let_def using x(2) by simp
  have mem: "x \<in> set alts" using x(1) by (auto split: if_splits)
  have "\<forall>r' \<in> set alts. route_disrupted rc (route_id r')" if "route_disrupted rc (route_id x)"
  proof (cases "?valid = []")
    case True
    then show ?thesis by (auto simp: filter_empty_conv)
  next
    case False
    then have "x \<in> set ?valid" using x(1) by simp
    then show ?thesis using that by simp
  qed
  then show ?thesis using sel mem by blast
qed

lemma reroute_issue_cases:
  "(\<exists>t'. reroute_issue config clock tick act rc i = Inr (None, t')) \<or>
   (\<exists>s r reason. map_of act (iss_shipment_id i) = Some s \<and>
      r \<in> set (find_alternative_routes (clock tick) (origin s) (destination s) (route s)) \<and>
      (route_disrupted rc (route_id r) \<longrightarrow>
         (\<forall>r' \<in> set (find_alternative_routes (clock tick) (origin s) (destination s) (route s)).
            route_disrupted rc (route_id r'))) \<and>
      reroute_issue config clock tick act rc i =
        Inr (Some \<lparr>rd_shipment_id = iss_shipment_id i, old_route = route s,
                   new_route = route_id r, rd_reason = reason,
                   new_eta = ar_estimated_arrival r\<rparr>, Suc tick))"
proof (cases "map_of act (iss_shipment_id i)")
  case None
  then show ?thesis by (simp add: reroute_issue_def)
next
  case (Some s)
  let ?alts = "find_alternative_routes (clock tick) (origin s) (destination s) (route s)"
  show ?thesis
  proof (cases "?alts = []")
    case True
    then show ?thesis using Some by (auto simp: reroute_issue_def Let_def)
  next
    case False
    from select_best_route_sound[OF False, of "priority s" rc]
    obtain r where r: "r \<in> set ?alts"
      "select_best_route ?alts (priority s) rc = Inr (route_id r, ar_estimated_arrival r)"
      "route_disrupted rc (route_id r) \<longrightarrow> (\<forall>r' \<in> set ?alts. route_disrupted rc (route_id r'))"
      by blast
    show ?thesis
      using Some False r by (auto simp: reroute_issue_def Let_def)
  qed
qed

lemma reroute_sound_mono:
  "reroute_sound act rc issues d \<Longrightarrow> set issues \<subseteq> set issues' \<Longrightarrow> reroute_sound act rc issues' d"
  unfolding reroute_sound_def by blast

lemma rerouting_loop_sound:
  "\<exists>ds. rerouting_loop config clock act rc issues tick acc = Inr (acc @ ds) \<and>
        (\<forall>d \<in> set ds. reroute_sound act rc issues d)"
proof (induction issues arbitrary: tick acc)
  case Nil
  then show ?case by simp
next
  case (Cons i issues)
  from reroute_issue_cases[of config clock tick act rc i]
  show ?case
  proof (elim disjE exE conjE)
    fix t'
    assume n: "reroute_issue config clock tick act rc i = Inr (None, t')"
    from Cons.IH[of t' acc] obtain ds where
      ds: "rerouting_loop config clock act rc issues t' acc = Inr (acc @ ds)"
        "\<forall>d \<in> set ds. reroute_sound act rc issues d" by blast
    have "\<forall>d \<in> set ds. reroute_sound act rc (i # issues) d"
      using ds(2) by (auto intro: reroute_sound_mono)
    then show ?thesis using n ds(1) by simp
  next
    fix s r reason
    assume s: "map_of act (iss_shipment_id i) = Some s"
      and r: "r \<in> set (find_alternative_routes (clock tick) (origin s) (destination s) (route s))"
      and dis: "route_disrupted rc (route_id r) \<longrightarrow>
         (\<forall>r' \<in> set (find_alternative_routes (clock tick) (origin s) (destination s) (route s)).
            route_disrupted rc (route_id r'))"
      and eq: "reroute_issue config clock tick act rc i =
        Inr (Some \<lparr>rd_shipment_id = iss_shipment_id i, old_route = route s,
                   new_route = route_id r, rd_reason = reason,
                   new_eta = ar_estimated_arrival r\<rparr>, Suc tick)"
    let ?d = "\<lparr>rd_shipment_id = iss_shipment_id i, old_route = route s,
                   new_route = route_id r, rd_reason = reason,
                   new_eta = ar_estimated_arrival r\<rparr>"
    from Cons.IH[of "Suc tick" "acc @ [?d]"] obtain ds where
      ds: "rerouting_loop config clock act rc issues (Suc tick) (acc @ [?d]) = Inr ((acc @ [?d]) @ ds)"
        "\<forall>d \<in> set ds. reroute_sound act rc issues d" by blast
    have d: "reroute_sound act rc (i # issues) ?d"
      unfolding reroute_sound_def using s r dis
      by (intro bexI[of _ i] exI[of _ s] exI[of _ r] exI[of _ "clock tick"]) simp_all
    have "\<forall>d \<in> set (?d # ds). reroute_sound act rc (i # issues) d"
      using ds(2) d by (auto intro: reroute_sound_mono)
    moreover have "rerouting_loop config clock act rc (i # issues) tick acc = Inr (acc @ (?d # ds))"
      using eq ds(1) by simp
    ultimately show ?thesis by blast
  qed
qed

lemma find_alternative_routes_ids:
  "map route_id (find_alternative_routes now orig dest cur) =
   map route_id (find_alternative_routes now' orig dest cur)"
  by (simp add: find_alternative_routes_def Let_def)

lemma check_shipment_issues_status:
  "i \<in> set (check_shipment_issues now act) \<Longrightarrow>
   \<exists>s. (iss_shipment_id i, s) \<in> set act \<and> status s \<noteq> REROUTING \<and> status s \<noteq> ON_HOLD"
proof (induction act)
  case Nil
  then show ?case by simp
next
  case (Cons p act)
  obtain sid s where p: "p = (sid, s)" by (cases p)
  show ?case
  proof (cases "i \<in> set (check_shipment_issues now act)")
    case True
    from Cons.IH[OF True] show ?thesis by auto
  next
    case False
    with Cons.prems have "iss_shipment_id i = sid \<and> status s \<noteq> REROUTING \<and> status s \<noteq> ON_HOLD"
      by (auto simp: p split: if_splits option.splits)
    then show ?thesis by (auto simp: p)
  qed
qed

text \<open>
  Claim C5. The call raises nothing, and every decision it returns is for a shipment of
  the active map, names that shipment's route as \<open>old_route\<close> and a different route as
  \<open>new_route\<close>; if the new route is marked disrupted in the route conditions, then every
  alternative route found for the shipment is marked disrupted (the fallback to the
  unfiltered list).
\<close>

theorem reroute_avoids_current_and_disrupted:
  "\<exists>ds. evaluate_shipment_rerouting config clock active_shipments issues route_conditions = Inr ds \<and>
     list_all
       (\<lambda>d. new_route d \<noteq> old_route d \<and>
          (\<exists>s. map_of active_shipments (rd_shipment_id d) = Some s \<and> old_route d = route s \<and>
             (route_disrupted route_conditions (new_route d) \<longrightarrow>
                (\<forall>now. \<forall>r \<in> set (find_alternative_routes now (origin s) (destination s) (route s)).
                   route_disrupted route_conditions (route_id r)))))
       ds"
proof -
  from rerouting_loop_sound[of config clock active_shipments route_conditions issues 0 "[]"]
  obtain ds where ds:
    "evaluate_shipment_rerouting config clock active_shipments issues route_conditions = Inr ds"
    "\<forall>d \<in> set ds. reroute_sound active_shipments route_conditions issues d"
    by (auto simp: evaluate_shipment_rerouting_def)
  have "new_route d \<noteq> old_route d \<and>
          (\<exists>s. map_of active_shipments (rd_shipment_id d) = Some s \<and> old_route d = route s \<and>
             (route_disrupted route_conditions (new_route d) \<longrightarrow>
                (\<forall>now. \<forall>r \<in> set (find_alternative_routes now (origin s) (destination s) (route s)).
                   route_disrupted route_conditions (route_id r))))"
    if "d \<in> set ds" for d
  proof -
    from ds(2) that obtain i :: issue and s r t where
      id: "rd_shipment_id d = iss_shipment_id i" and
      s: "map_of active_shipments (iss_shipment_id i) = Some s" and
      old: "old_route d = route s" and new: "new_route d = route_id r" and
      r: "r \<in> set (find_alternative_routes t (origin s) (destination s) (route s))" and
      dis: "route_disrupted route_conditions (route_id r) \<longrightarrow>
         (\<forall>r' \<in> set (find_alternative_routes t (origin s) (destination s) (route s)).
            route_disrupted route_conditions (route_id r'))"
      unfolding reroute_sound_def by blast
    have ne: "new_route d \<noteq> old_route d"
      using find_alternative_routes_not_current[OF r] by (simp add: old new)
    have all: "route_disrupted route_conditions (route_id r')"
      if "route_disrupted route_conditions (new_route d)"
        and "r' \<in> set (find_alternative_routes now (origin s) (destination s) (route s))"
      for now r'
    proof -
      have "route_id r' \<in> set (map route_id
          (find_alternative_routes now (origin s) (destination s) (route s)))"
        using that(2) by simp
      then have "route_id r' \<in> set (map route_id
          (find_alternative_routes t (origin s) (destination s) (route s)))"
        by (simp only: find_alternative_routes_ids[of now _ _ _ t])
      then obtain r'' where "r'' \<in> set (find_alternative_routes t (origin s) (destination s) (route s))"
        "route_id r'' = route_id r'" by auto
      then show ?thesis using dis that(1) by (auto simp: new)
    qed
    show ?thesis using ne s old all by (auto simp: id)
  qed
  then show ?thesis using ds(1) by (auto simp: list_all_iff)
qed

text \<open>
  Two runs. With the current route and all three alternatives disrupted, the fallback
  picks a disrupted route, for a priority of 9 and of 3; the second shipment's current
  route is the second alternative, which is left out. With only the first alternative
  disrupted, the second is picked.
\<close>

theorem reroute_avoids_current_and_disrupted_witness:
  "evaluate_shipment_rerouting example_config (\<lambda>n. 0)
     [example_shipment ''s1'' IN_TRANSIT 9 ''r0'' None,
      example_shipment ''s2'' IN_TRANSIT 3 ''route_a_b_alt2'' None]
     [example_issue ''s1'' 0, example_issue ''s2'' 90]
     (example_route_conditions
        [''r0'', ''route_a_b_alt1'', ''route_a_b_alt2'', ''route_a_b_alt3'']) =
   Inr [\<lparr>rd_shipment_id = ''s1'', old_route = ''r0'', new_route = ''route_a_b_alt1'',
          rd_reason = ''route_disruption'', new_eta = 30600\<rparr>,
        \<lparr>rd_shipment_id = ''s2'', old_route = ''route_a_b_alt2'', new_route = ''route_a_b_alt1'',
          rd_reason = ''route_disruption'', new_eta = 30600\<rparr>] \<and>
   evaluate_shipment_rerouting example_config (\<lambda>n. 0)
     [example_shipment ''s1'' IN_TRANSIT 9 ''r0'' None]
     [example_issue ''s1'' 0]
     (example_route_conditions [''r0'', ''route_a_b_alt1'']) =
   Inr [\<lparr>rd_shipment_id = ''s1'', old_route = ''r0'', new_route = ''route_a_b_alt2'',
          rd_reason = ''route_disruption'', new_eta = 33120\<rparr>]"
  using reroute_avoids_current_and_disrupted [of example_config "\<lambda>n. 0"
     "[example_shipment ''s1'' IN_TRANSIT 9 ''r0'' None]" "[example_issue ''s1'' 0]"
     "example_route_conditions [''r0'', ''route_a_b_alt1'']"]
  by (simp add: evaluate_shipment_rerouting_def reroute_issue_def example_shipment_def
      example_issue_def example_route_conditions_def example_config_def route_disrupted_def
      find_alternative_routes_def select_best_route_def hours_def)

text \<open>
  Claim C1 as stated fails: \<^verbatim>\<open>evaluate_shipment_rerouting\<close> never reads the status. A
  shipment in \<^verbatim>\<open>rerouting\<close> whose route is disrupted, named by an issue, gets a decision.
\<close>

theorem rerouting_ignores_status_counterexample:
  "map_of [example_shipment ''s1'' REROUTING 9 ''r0'' None] ''s1'' =
     Some (snd (example_shipment ''s1'' REROUTING 9 ''r0'' None)) \<and>
   status (snd (example_shipment ''s1'' REROUTING 9 ''r0'' None)) = REROUTING \<and>
   evaluate_shipment_rerouting example_config (\<lambda>n. 0)
     [example_shipment ''s1'' REROUTING 9 ''r0'' None]
     [example_issue ''s1'' 0]
     (example_route_conditions [''r0'']) =
   Inr [\<lparr>rd_shipment_id = ''s1'', old_route = ''r0'', new_route = ''route_a_b_alt1'',
          rd_reason = ''route_disruption'', new_eta = 30600\<rparr>]"
  by (simp add: evaluate_shipment_rerouting_def reroute_issue_def example_shipment_def
      example_issue_def example_route_conditions_def example_config_def route_disrupted_def
      find_alternative_routes_def select_best_route_def hours_def)

text \<open>
  Claim C1, amended. The skip is in the driver: \<^verbatim>\<open>_check_shipment_issues\<close> leaves the
  shipments in \<^verbatim>\<open>rerouting\<close> or \<^verbatim>\<open>on_hold\<close> out of the issue list. On the issue list
  the driver builds from the active shipments, the engine returns no decision for such a
  shipment.
\<close>

theorem driver_issues_exclude_handled_shipments:
  assumes "distinct (map fst active_shipments)"
    and "map_of active_shipments sid = Some s"
    and "status s = REROUTING \<or> status s = ON_HOLD"
  shows "\<exists>ds. evaluate_shipment_rerouting config clock active_shipments
            (check_shipment_issues now active_shipments) route_conditions = Inr ds \<and>
          sid \<notin> rd_shipment_id ` set ds"
proof -
  let ?issues = "check_shipment_issues now active_shipments"
  from rerouting_loop_sound[of config clock active_shipments route_conditions ?issues 0 "[]"]
  obtain ds where ds:
    "evaluate_shipment_rerouting config clock active_shipments ?issues route_conditions = Inr ds"
    "\<forall>d \<in> set ds. reroute_sound active_shipments route_conditions ?issues d"
    by (auto simp: evaluate_shipment_rerouting_def)
  have "rd_shipment_id d \<noteq> sid" if "d \<in> set ds" for d
  proof
    assume eq: "rd_shipment_id d = sid"
    from ds(2) that obtain i where i: "i \<in> set ?issues" "rd_shipment_id d = iss_shipment_id i"
      unfolding reroute_sound_def by blast
    from check_shipment_issues_status[OF i(1)] obtain s' where
      s': "(iss_shipment_id i, s') \<in> set active_shipments" "status s' \<noteq> REROUTING"
        "status s' \<noteq> ON_HOLD" by blast
    have "map_of active_shipments (iss_shipment_id i) = Some s'"
      using assms(1) s'(1) by simp
    then have "s' = s" using assms(2) eq i(2) by simp
    then show False using s'(2,3) assms(3) by simp
  qed
  then show ?thesis using ds(1) by auto
qed

text \<open>
  An instance: both shipments are two hours late on a disrupted route; the one on hold
  gets no decision.
\<close>

theorem driver_issues_exclude_handled_shipments_witness:
  "distinct (map fst [example_shipment ''s1'' ON_HOLD 9 ''r0'' (Some 0),
                      example_shipment ''s2'' IN_TRANSIT 9 ''r0'' (Some 0)]) \<and>
   map_of [example_shipment ''s1'' ON_HOLD 9 ''r0'' (Some 0),
           example_shipment ''s2'' IN_TRANSIT 9 ''r0'' (Some 0)] ''s1'' =
     Some (snd (example_shipment ''s1'' ON_HOLD 9 ''r0'' (Some 0))) \<and>
   status (snd (example_shipment ''s1'' ON_HOLD 9 ''r0'' (Some 0))) = ON_HOLD \<and>
   evaluate_shipment_rerouting example_config (\<lambda>n. 7200)
     [example_shipment ''s1'' ON_HOLD 9 ''r0'' (Some 0),
      example_shipment ''s2'' IN_TRANSIT 9 ''r0'' (Some 0)]
     (check_shipment_issues 7200
        [example_shipment ''s1'' ON_HOLD 9 ''r0'' (Some 0),
         example_shipment ''s2'' IN_TRANSIT 9 ''r0'' (Some 0)])
     (example_route_conditions [''r0'']) =
   Inr [\<lparr>rd_shipment_id = ''s2'', old_route = ''r0'', new_route = ''route_a_b_alt1'',
          rd_reason = ''route_disruption'', new_eta = 37800\<rparr>]"
  using driver_issues_exclude_handled_shipments [of
     "[example_shipment ''s1'' ON_HOLD 9 ''r0'' (Some 0),
       example_shipment ''s2'' IN_TRANSIT 9 ''r0'' (Some 0)]" "''s1''"
     "snd (example_shipment ''s1'' ON_HOLD 9 ''r0'' (Some 0))" example_config "\<lambda>n. 7200" 7200
     "example_route_conditions [''r0'']"]
  by (simp add: evaluate_shipment_rerouting_def reroute_issue_def example_shipment_def
      example_issue_def example_route_conditions_def example_config_def route_disrupted_def
      find_alternative_routes_def select_best_route_def hours_def status_value_def)

section \<open>Balancing: transfers stay within the computed excess\<close>

lemma transferred_from_append:
  "transferred_from item src (xs @ ys) = transferred_from item src xs + transferred_from item src ys"
  by (simp add: transferred_from_def)

lemma transferred_from_Nil: "transferred_from item src [] = 0"
  by (simp add: transferred_from_def)

lemma transferred_from_other_item:
  "\<forall>d \<in> set ds. \<forall>it \<in> set (td_items d). ti_id it \<noteq> item \<Longrightarrow> transferred_from item src ds = 0"
proof (induction ds)
  case Nil
  then show ?case by (simp add: transferred_from_def)
next
  case (Cons d ds)
  have "filter (\<lambda>it. ti_id it = item) (td_items d) = []"
    using Cons.prems by (auto simp: filter_empty_conv)
  then show ?case using Cons by (simp add: transferred_from_def)
qed

lemma best_source_loop_mem:
  "fst (best_source_loop deficit_id ex (bs, bd)) = Some b \<Longrightarrow>
   bs = Some b \<or> (\<exists>a. (b, a) \<in> set ex \<and> a > 0)"
proof (induction ex arbitrary: bs bd)
  case Nil
  then show ?case by simp
next
  case (Cons p ex)
  obtain k a where p: "p = (k, a)" by (cases p)
  show ?case
  proof (cases "a \<le> 0")
    case True
    with Cons.prems have "fst (best_source_loop deficit_id ex (bs, bd)) = Some b"
      by (simp add: p)
    from Cons.IH[OF this] show ?thesis by auto
  next
    case False
    let ?better = "case bd of None \<Rightarrow> True | Some x \<Rightarrow> calculate_distance k deficit_id < x"
    show ?thesis
    proof (cases ?better)
      case True
      with False Cons.prems have
        "fst (best_source_loop deficit_id ex (Some k, Some (calculate_distance k deficit_id))) = Some b"
        by (simp add: p Let_def)
      from Cons.IH[OF this] show ?thesis using False by (auto simp: p)
    next
      case no: False
      with False Cons.prems have "fst (best_source_loop deficit_id ex (bs, bd)) = Some b"
        by (simp add: p Let_def)
      from Cons.IH[OF this] show ?thesis by auto
    qed
  qed
qed

lemma amount_of_update:
  "amount_of (AList.update k v al) k' = (if k' = k then v else amount_of al k')"
  by (simp add: amount_of_def update_conv')

lemma set_alist_update:
  "p \<in> set (AList.update k v al) \<Longrightarrow> p = (k, v) \<or> p \<in> set al"
  by (induction al) (auto split: if_splits)

lemma amounts_ok_update:
  "amounts_ok al \<Longrightarrow> v \<ge> 0 \<Longrightarrow> amounts_ok (AList.update k v al)"
proof -
  assume ok: "amounts_ok al" and v: "v \<ge> 0"
  have "snd p \<ge> 0" if "p \<in> set (AList.update k v al)" for p
  proof -
    from that have "p = (k, v) \<or> p \<in> set al" by (rule set_alist_update)
    then show ?thesis using ok v by (auto simp: amounts_ok_def)
  qed
  then show ?thesis using ok by (simp add: amounts_ok_def distinct_update)
qed

lemma amount_of_nonneg: "amounts_ok al \<Longrightarrow> amount_of al k \<ge> 0"
  unfolding amounts_ok_def amount_of_def
  by (auto split: option.splits dest!: map_of_SomeD)

lemma transferred_from_single:
  "transferred_from item src
     [\<lparr>source_warehouse = b, destination_warehouse = dst,
       td_items = [\<lparr>ti_id = item, ti_name = n, ti_quantity = q, ti_unit = u\<rparr>],
       td_reason = r, td_priority = p\<rparr>] = (if src = b then q else 0)"
  by (simp add: transferred_from_def)

lemma deficit_loop_invariant:
  assumes "amounts_ok ex"
  shows "\<exists>new ex'. deficit_loop item im defs ex recs = Inr (recs @ new, ex') \<and> amounts_ok ex' \<and>
           (\<forall>src. transferred_from item src new + of_int (amount_of ex' src) =
                    of_int (amount_of ex src)) \<and>
           (\<forall>d \<in> set new. \<forall>it \<in> set (td_items d). ti_id it = item)"
  using assms
proof (induction defs arbitrary: ex recs)
  case Nil
  then show ?case by (simp add: transferred_from_Nil)
next
  case (Cons p defs)
  obtain did da where p: "p = (did, da)" by (cases p)
  let ?best = "fst (best_source_loop did ex (None, None))"
  show ?case
  proof (cases "?best = None \<or> ?best = Some []")
    case True
    then have "deficit_loop item im (p # defs) ex recs = deficit_loop item im defs ex recs"
      by (auto simp: p)
    then show ?thesis using Cons.IH[OF Cons.prems, of recs] by simp
  next
    case False
    then obtain b where b: "?best = Some b" "b \<noteq> []" by auto
    from best_source_loop_mem[OF b(1)] obtain a where a: "(b, a) \<in> set ex" "a > 0" by auto
    have look: "map_of ex b = Some a"
      using a(1) Cons.prems by (simp add: amounts_ok_def)
    define t where "t = min a da"
    define rec where "rec =
       \<lparr>source_warehouse = b, destination_warehouse = did,
        td_items = [\<lparr>ti_id = item, ti_name = im_name im, ti_quantity = of_int t,
                     ti_unit = im_unit im\<rparr>],
        td_reason = ''inventory_balancing'', td_priority = 3\<rparr>"
    let ?ex2 = "AList.update b (a - t) ex"
    have step: "deficit_loop item im (p # defs) ex recs =
        deficit_loop item im defs ?ex2 (recs @ [rec])"
      using b look by (simp add: p Let_def t_def rec_def)
    have "a - t \<ge> 0" by (simp add: t_def)
    then have ok2: "amounts_ok ?ex2" using Cons.prems by (rule amounts_ok_update[rotated])
    from Cons.IH[OF ok2, of "recs @ [rec]"] obtain new ex' where
      r: "deficit_loop item im defs ?ex2 (recs @ [rec]) = Inr ((recs @ [rec]) @ new, ex')"
      and ok': "amounts_ok ex'"
      and bal: "\<forall>src. transferred_from item src new + of_int (amount_of ex' src) =
                    of_int (amount_of ?ex2 src)"
      and ids: "\<forall>d \<in> set new. \<forall>it \<in> set (td_items d). ti_id it = item"
      by blast
    have ab: "amount_of ex b = a" using look by (simp add: amount_of_def)
    have bal': "transferred_from item src (rec # new) + of_int (amount_of ex' src) =
                    of_int (amount_of ex src)" for src
    proof -
      have "transferred_from item src (rec # new) =
          transferred_from item src [rec] + transferred_from item src new"
        using transferred_from_append[of item src "[rec]" new] by simp
      also have "transferred_from item src [rec] = (if src = b then of_int t else 0)"
        unfolding rec_def by (rule transferred_from_single)
      finally show ?thesis
        using bal[rule_format, of src] ab by (simp add: amount_of_update split: if_splits)
    qed
    have ids': "\<forall>d \<in> set (rec # new). \<forall>it \<in> set (td_items d). ti_id it = item"
      using ids by (simp add: rec_def)
    have "deficit_loop item im (p # defs) ex recs = Inr (recs @ (rec # new), ex')"
      using step r by simp
    then show ?thesis using ok' bal' ids' by blast
  qed
qed

lemma balance_loop_invariant:
  assumes "distinct (map fst ims)" and "\<forall>p \<in> set ims. amounts_ok (excess (snd p))"
  shows "\<exists>new. balance_loop ims recs = Inr (recs @ new) \<and>
           (\<forall>item src. transferred_from item src new \<le>
              of_int (case map_of ims item of None \<Rightarrow> 0 | Some entry \<Rightarrow> amount_of (excess entry) src)) \<and>
           (\<forall>d \<in> set new. \<forall>it \<in> set (td_items d). ti_id it \<in> fst ` set ims)"
  using assms
proof (induction ims arbitrary: recs)
  case Nil
  then show ?case by (simp add: transferred_from_Nil)
next
  case (Cons p ims)
  obtain item im where p: "p = (item, im)" by (cases p)
  have dist: "distinct (map fst ims)" and fresh: "item \<notin> fst ` set ims"
    and oks: "\<forall>p \<in> set ims. amounts_ok (excess (snd p))" and ok: "amounts_ok (excess im)"
    using Cons.prems by (auto simp: p)
  from deficit_loop_invariant[OF ok, of item im "deficit im" recs] obtain new1 ex' where
    d: "deficit_loop item im (deficit im) (excess im) recs = Inr (recs @ new1, ex')"
    and ok': "amounts_ok ex'"
    and bal: "\<forall>src. transferred_from item src new1 + of_int (amount_of ex' src) =
                    of_int (amount_of (excess im) src)"
    and ids: "\<forall>d \<in> set new1. \<forall>it \<in> set (td_items d). ti_id it = item"
    by blast
  define new0 where "new0 = (if excess im = [] \<or> deficit im = [] then [] else new1)"
  have ids0: "\<forall>d \<in> set new0. \<forall>it \<in> set (td_items d). ti_id it = item"
    using ids by (simp add: new0_def)
  have le0: "transferred_from item src new0 \<le> of_int (amount_of (excess im) src)" for src
  proof (cases "excess im = [] \<or> deficit im = []")
    case True
    then show ?thesis using amount_of_nonneg[OF ok, of src]
      by (simp add: new0_def transferred_from_Nil)
  next
    case False
    have "(0::rat) \<le> of_int (amount_of ex' src)"
      using amount_of_nonneg[OF ok', of src] by simp
    then show ?thesis using False bal[rule_format, of src] by (simp add: new0_def)
  qed
  from Cons.IH[OF dist oks, of "recs @ new0"] obtain new2 where
    r: "balance_loop ims (recs @ new0) = Inr ((recs @ new0) @ new2)"
    and le2: "\<forall>item src. transferred_from item src new2 \<le>
              of_int (case map_of ims item of None \<Rightarrow> 0 | Some entry \<Rightarrow> amount_of (excess entry) src)"
    and ids2: "\<forall>d \<in> set new2. \<forall>it \<in> set (td_items d). ti_id it \<in> fst ` set ims"
    by blast
  have run: "balance_loop (p # ims) recs = Inr (recs @ (new0 @ new2))"
  proof (cases "excess im = [] \<or> deficit im = []")
    case True
    then show ?thesis using r by (auto simp: p new0_def)
  next
    case False
    then show ?thesis using d r by (simp add: p new0_def)
  qed
  have le: "transferred_from item' src (new0 @ new2) \<le>
              of_int (case map_of (p # ims) item' of None \<Rightarrow> 0
                      | Some entry \<Rightarrow> amount_of (excess entry) src)" for item' src
  proof (cases "item' = item")
    case True
    have "\<forall>d \<in> set new2. \<forall>it \<in> set (td_items d). ti_id it \<noteq> item"
      using ids2 fresh by blast
    then have "transferred_from item src new2 = 0" by (rule transferred_from_other_item)
    then show ?thesis using le0[of src] True by (simp add: transferred_from_append p)
  next
    case False
    have "\<forall>d \<in> set new0. \<forall>it \<in> set (td_items d). ti_id it \<noteq> item'"
      using ids0 False by blast
    then have "transferred_from item' src new0 = 0" by (rule transferred_from_other_item)
    then show ?thesis using le2[rule_format, of item' src] False
      by (simp add: transferred_from_append p)
  qed
  have ids': "\<forall>d \<in> set (new0 @ new2). \<forall>it \<in> set (td_items d). ti_id it \<in> fst ` set (p # ims)"
    using ids0 ids2 by (auto simp: p)
  show ?case using run le ids' by blast
qed

lemma amounts_ok_Nil: "amounts_ok []"
  by (simp add: amounts_ok_def)

lemma classify_loop_excess_ok:
  "amounts_ok e \<Longrightarrow> amounts_ok (fst (classify_loop avg ws (e, d)))"
proof (induction ws arbitrary: e d)
  case Nil
  then show ?case by simp
next
  case (Cons p ws)
  obtain wid lvl where p: "p = (wid, lvl)" by (cases p)
  let ?ea = "py_int ((ratio lvl - avg - 3 / 20) * of_int (threshold_range lvl))"
  have "classify_loop avg (p # ws) (e, d) = classify_loop avg ws (AList.update wid ?ea e, d) \<and> ?ea > 0
      \<or> (\<exists>d'. classify_loop avg (p # ws) (e, d) = classify_loop avg ws (e, d'))"
  proof (cases "threshold_range lvl > 0 \<and> ratio lvl > avg + 1 / 4 \<and> ?ea > 0")
    case True
    then show ?thesis by (simp add: p Let_def)
  next
    case False
    let ?da = "py_int ((avg - 3 / 20 - ratio lvl) * of_int (threshold_range lvl))"
    have "classify_loop avg (p # ws) (e, d) =
        classify_loop avg ws
          (e, if threshold_range lvl > 0 \<and> \<not> ratio lvl > avg + 1 / 4 \<and>
                 ratio lvl < avg - 1 / 4 \<and> ?da > 0
              then AList.update wid ?da d else d)"
      using False by (auto simp: p Let_def)
    then show ?thesis by blast
  qed
  then show ?case
  proof (elim disjE conjE exE)
    assume eq: "classify_loop avg (p # ws) (e, d) = classify_loop avg ws (AList.update wid ?ea e, d)"
      and pos: "?ea > 0"
    have "amounts_ok (AList.update wid ?ea e)"
      using Cons.prems pos by (intro amounts_ok_update) simp_all
    from Cons.IH[OF this] show ?thesis by (simp add: eq)
  next
    fix d'
    assume "classify_loop avg (p # ws) (e, d) = classify_loop avg ws (e, d')"
    then show ?thesis using Cons.IH[OF Cons.prems] by simp
  qed
qed

lemma classify_item_excess_ok:
  assumes "classify_item data = Some (e, d)"
  shows "amounts_ok e"
proof -
  obtain total n where tn: "ratio_loop (id_warehouses data) (0, 0) = (total, n)"
    by (cases "ratio_loop (id_warehouses data) (0, 0)")
  have "classify_loop (total / of_nat n) (id_warehouses data) ([], []) = (e, d)"
    using assms by (auto simp: classify_item_def tn split: if_splits)
  then show ?thesis
    using classify_loop_excess_ok[OF amounts_ok_Nil, of "total / of_nat n" "id_warehouses data" "[]"]
    by simp
qed

lemma identify_item_excess_ok:
  assumes "identify_item data = Some im"
  shows "amounts_ok (excess im)"
proof -
  from assms obtain e d where "classify_item data = Some (e, d)" "excess im = e"
    by (auto simp: identify_item_def split: option.splits if_splits)
  then show ?thesis using classify_item_excess_ok by simp
qed

lemma identify_loop_entries:
  "p \<in> set (identify_loop xs acc) \<Longrightarrow>
   p \<in> set acc \<or> (\<exists>data. identify_item data = Some (snd p))"
proof (induction xs arbitrary: acc)
  case Nil
  then show ?case by simp
next
  case (Cons x xs)
  obtain item data where x: "x = (item, data)" by (cases x)
  show ?case
  proof (cases "identify_item data")
    case None
    then show ?thesis using Cons by (simp add: x)
  next
    case (Some entry)
    with Cons.prems have "p \<in> set (identify_loop xs (AList.update item entry acc))"
      by (simp add: x)
    from Cons.IH[OF this] show ?thesis
      using Some by (auto dest!: set_alist_update)
  qed
qed

lemma identify_loop_distinct:
  "distinct (map fst acc) \<Longrightarrow> distinct (map fst (identify_loop xs acc))"
proof (induction xs arbitrary: acc)
  case Nil
  then show ?case by simp
next
  case (Cons x xs)
  obtain item data where x: "x = (item, data)" by (cases x)
  show ?case using Cons by (cases "identify_item data") (simp_all add: x distinct_update)
qed

lemma identify_inventory_imbalances_ok:
  "distinct (map fst (identify_inventory_imbalances ws))"
  "\<forall>p \<in> set (identify_inventory_imbalances ws). amounts_ok (excess (snd p))"
proof -
  show "distinct (map fst (identify_inventory_imbalances ws))"
    unfolding identify_inventory_imbalances_def by (rule identify_loop_distinct) simp
  show "\<forall>p \<in> set (identify_inventory_imbalances ws). amounts_ok (excess (snd p))"
  proof
    fix p assume "p \<in> set (identify_inventory_imbalances ws)"
    from identify_loop_entries[OF this[unfolded identify_inventory_imbalances_def]]
    obtain data where "identify_item data = Some (snd p)" by auto
    then show "amounts_ok (excess (snd p))" by (rule identify_item_excess_ok)
  qed
qed

lemma balance_inventory_total: "\<exists>ds. balance_inventory ws = Inr ds"
  using balance_loop_invariant[OF identify_inventory_imbalances_ok, of ws "[]"]
  by (auto simp: balance_inventory_def)

text \<open>
  Claim C4. The call raises nothing, and for every item and every source warehouse the
  quantities of the item in the decisions drawn from that source add up to at most the
  excess amount computed for that source by \<^verbatim>\<open>_identify_inventory_imbalances\<close> (zero
  when none was computed).
\<close>

theorem rebalancing_within_computed_excess:
  "\<exists>ds. balance_inventory warehouses = Inr ds \<and>
     (\<forall>item src. transferred_from item src ds \<le> of_int (computed_excess warehouses item src))"
proof -
  from balance_loop_invariant[OF identify_inventory_imbalances_ok, of warehouses "[]"]
  obtain ds where "balance_loop (identify_inventory_imbalances warehouses) [] = Inr ds"
    "\<forall>item src. transferred_from item src ds \<le>
        of_int (case map_of (identify_inventory_imbalances warehouses) item of None \<Rightarrow> 0
                | Some entry \<Rightarrow> amount_of (excess entry) src)"
    by auto
  then show ?thesis
    by (auto simp: balance_inventory_def computed_excess_def)
qed

text \<open>
  An instance: B has an excess of 105, A and C each lack 450. The transfer to A takes all
  of B's excess, and C, which comes later, gets nothing.
\<close>

theorem rebalancing_within_computed_excess_witness:
  "balance_inventory
     [scenario_warehouse ''A'' 0 1000 2000, scenario_warehouse ''B'' 180 100 200,
      scenario_warehouse ''C'' 0 1000 2000] =
     Inr [\<lparr>source_warehouse = ''B'', destination_warehouse = ''A'',
           td_items = [\<lparr>ti_id = ''X'', ti_name = ''X'', ti_quantity = 105, ti_unit = ''units''\<rparr>],
           td_reason = ''inventory_balancing'', td_priority = 3\<rparr>] \<and>
   computed_excess
     [scenario_warehouse ''A'' 0 1000 2000, scenario_warehouse ''B'' 180 100 200,
      scenario_warehouse ''C'' 0 1000 2000] ''X'' ''B'' = 105"
  using rebalancing_within_computed_excess
    [of "[scenario_warehouse ''A'' 0 1000 2000, scenario_warehouse ''B'' 180 100 200,
          scenario_warehouse ''C'' 0 1000 2000]"]
  by (simp add: balance_inventory_def identify_inventory_imbalances_def identify_item_def
      classify_item_def scenario_warehouse_def scenario_item_def ratio_def threshold_range_def
      py_int_def calculate_distance_def distance_matrix_def computed_excess_def amount_of_def)

section \<open>Balancing: classification and balanced snapshots\<close>

lemma inventory_ok_update:
  assumes "inventory_ok iv" "id_warehouses data \<noteq> []"
  shows "inventory_ok (AList.update k data iv)"
proof -
  have "id_warehouses (snd p) \<noteq> []" if "p \<in> set (AList.update k data iv)" for p
  proof -
    from that have "p = (k, data) \<or> p \<in> set iv" by (rule set_alist_update)
    then show ?thesis using assms by (auto simp: inventory_ok_def)
  qed
  then show ?thesis using assms(1) by (simp add: inventory_ok_def distinct_update)
qed

lemma levels_of_update:
  "levels_of (AList.update k data iv) item =
     (if item = k then id_warehouses data else levels_of iv item)"
  by (simp add: levels_of_def update_conv')

lemma collect_items_loop_levels:
  assumes "distinct (map fst items)" "inventory_ok iv"
  shows "inventory_ok (collect_items_loop wid items iv) \<and>
         (\<forall>item. levels_of (collect_items_loop wid items iv) item =
            (case map_of items item of
               None \<Rightarrow> levels_of iv item
             | Some it \<Rightarrow> AList.update wid (level_of it) (levels_of iv item)))"
  using assms
proof (induction items arbitrary: iv)
  case Nil
  then show ?case by simp
next
  case (Cons p items)
  obtain k it where p: "p = (k, it)" by (cases p)
  have dist: "distinct (map fst items)" and fresh: "map_of items k = None"
    using Cons.prems(1) by (auto simp: p map_of_eq_None_iff)
  define data where "data =
     (case map_of iv k of
        None \<Rightarrow> \<lparr>id_name = item_name it, id_category = item_category it,
                  id_unit = item_unit it, id_warehouses = []\<rparr>
      | Some data \<Rightarrow> data)"
  define data' where
    "data' = data\<lparr>id_warehouses := AList.update wid (level_of it) (id_warehouses data)\<rparr>"
  let ?iv2 = "AList.update k data' iv"
  have step: "collect_items_loop wid (p # items) iv = collect_items_loop wid items ?iv2"
    by (simp add: p Let_def data_def data'_def level_of_def)
  have dl: "id_warehouses data = levels_of iv k"
    by (simp add: data_def levels_of_def split: option.splits)
  have d'w: "id_warehouses data' = AList.update wid (level_of it) (levels_of iv k)"
    by (simp add: data'_def dl)
  have ok2: "inventory_ok ?iv2"
    using Cons.prems(2) by (rule inventory_ok_update) (simp add: data'_def)
  from Cons.IH[OF dist ok2] have
    ok: "inventory_ok (collect_items_loop wid items ?iv2)" and
    lv: "\<And>item. levels_of (collect_items_loop wid items ?iv2) item =
            (case map_of items item of
               None \<Rightarrow> levels_of ?iv2 item
             | Some it \<Rightarrow> AList.update wid (level_of it) (levels_of ?iv2 item))"
    by auto
  have "levels_of (collect_items_loop wid items ?iv2) item =
            (case map_of (p # items) item of
               None \<Rightarrow> levels_of iv item
             | Some it \<Rightarrow> AList.update wid (level_of it) (levels_of iv item))" for item
  proof (cases "item = k")
    case True
    then show ?thesis
      using fresh d'w by (simp add: lv levels_of_update p)
  next
    case False
    then show ?thesis
      by (simp add: lv levels_of_update p split: option.splits)
  qed
  then show ?case using ok unfolding step by blast
qed

lemma holdings_Cons:
  "holdings ((wid, w) # ws) item =
     (case map_of (wh_items w) item of None \<Rightarrow> [] | Some it \<Rightarrow> [(wid, level_of it)])
     @ holdings ws item"
  by (simp add: holdings_def split: option.splits)

lemma holdings_keys: "fst ` set (holdings ws item) \<subseteq> fst ` set ws"
  by (induction ws) (auto simp: holdings_def split: option.splits)

lemma collect_inventory_loop_levels:
  assumes "wf_warehouses ws" "inventory_ok iv"
    and "\<forall>item. fst ` set (levels_of iv item) \<inter> fst ` set ws = {}"
  shows "inventory_ok (collect_inventory_loop ws iv) \<and>
         (\<forall>item. levels_of (collect_inventory_loop ws iv) item =
                   levels_of iv item @ holdings ws item)"
  using assms
proof (induction ws arbitrary: iv)
  case Nil
  then show ?case by (simp add: holdings_def)
next
  case (Cons p ws)
  obtain wid w where p: "p = (wid, w)" by (cases p)
  have wf: "wf_warehouses ws" and di: "distinct (map fst (wh_items w))"
    and nin: "wid \<notin> fst ` set ws"
    using Cons.prems(1) by (auto simp: wf_warehouses_def p)
  let ?iv2 = "collect_items_loop wid (wh_items w) iv"
  from collect_items_loop_levels[OF di Cons.prems(2), of wid] have
    ok2: "inventory_ok ?iv2" and
    lv2: "\<And>item. levels_of ?iv2 item =
            (case map_of (wh_items w) item of
               None \<Rightarrow> levels_of iv item
             | Some it \<Rightarrow> AList.update wid (level_of it) (levels_of iv item))"
    by auto
  have fresh: "wid \<notin> fst ` set (levels_of iv item)" for item
    using Cons.prems(3) by (auto simp: p)
  have lv2': "levels_of ?iv2 item = levels_of iv item @
       (case map_of (wh_items w) item of None \<Rightarrow> [] | Some it \<Rightarrow> [(wid, level_of it)])" for item
    using fresh[of item] by (simp add: lv2 update_fresh split: option.splits)
  have disj: "\<forall>item. fst ` set (levels_of ?iv2 item) \<inter> fst ` set ws = {}"
  proof
    fix item
    have "fst ` set (levels_of ?iv2 item) \<subseteq> insert wid (fst ` set (levels_of iv item))"
      unfolding lv2' by (auto split: option.splits)
    moreover have "fst ` set (levels_of iv item) \<inter> fst ` set ws = {}"
      using Cons.prems(3) by (auto simp: p)
    ultimately show "fst ` set (levels_of ?iv2 item) \<inter> fst ` set ws = {}"
      using nin by blast
  qed
  from Cons.IH[OF wf ok2 disj] have
    "inventory_ok (collect_inventory_loop ws ?iv2)"
    "\<And>item. levels_of (collect_inventory_loop ws ?iv2) item =
        levels_of ?iv2 item @ holdings ws item"
    by auto
  then show ?case
    unfolding p collect_inventory_loop.simps by (simp add: lv2' holdings_Cons)
qed

lemma collect_inventory_holdings:
  assumes "wf_warehouses ws"
  shows "distinct (map fst (collect_inventory_loop ws []))"
    and "map_of (collect_inventory_loop ws []) item = Some data \<Longrightarrow>
           id_warehouses data = holdings ws item \<and> holdings ws item \<noteq> []"
    and "map_of (collect_inventory_loop ws []) item = None \<Longrightarrow> holdings ws item = []"
proof -
  have ok0: "inventory_ok []" by (simp add: inventory_ok_def)
  have "\<forall>item. fst ` set (levels_of [] item) \<inter> fst ` set ws = {}"
    by (simp add: levels_of_def)
  from collect_inventory_loop_levels[OF assms ok0 this] have
    ok: "inventory_ok (collect_inventory_loop ws [])" and
    lv: "\<And>item. levels_of (collect_inventory_loop ws []) item = holdings ws item"
    by (auto simp: levels_of_def)
  show "distinct (map fst (collect_inventory_loop ws []))"
    using ok by (simp add: inventory_ok_def)
  show "id_warehouses data = holdings ws item \<and> holdings ws item \<noteq> []"
    if "map_of (collect_inventory_loop ws []) item = Some data"
  proof -
    have "(item, data) \<in> set (collect_inventory_loop ws [])"
      using that by (rule map_of_SomeD)
    then have "id_warehouses data \<noteq> []" using ok by (auto simp: inventory_ok_def)
    moreover have "id_warehouses data = holdings ws item"
      using lv[of item] that by (simp add: levels_of_def)
    ultimately show ?thesis by simp
  qed
  show "holdings ws item = []" if "map_of (collect_inventory_loop ws []) item = None"
    using lv[of item] that by (simp add: levels_of_def)
qed

lemma ratio_loop_eq:
  "ratio_loop levels (t, n) =
     (t + sum_list (map (\<lambda>p. ratio (snd p)) (valid_levels levels)),
      n + length (valid_levels levels))"
  by (induction levels arbitrary: t n) (auto simp: valid_levels_def)

lemma py_int_excess:
  assumes "0 < threshold_range lvl" "avg + 1 / 4 < ratio lvl"
  shows "py_int ((ratio lvl - avg - 3 / 20) * of_int (threshold_range lvl)) =
         spec_excess_amount avg lvl"
proof -
  have "0 < ratio lvl - avg - 3 / 20" using assms(2) by simp
  moreover have "(0::rat) < of_int (threshold_range lvl)" using assms(1) by simp
  ultimately have "0 < (ratio lvl - avg - 3 / 20) * of_int (threshold_range lvl)"
    by (rule mult_pos_pos)
  then show ?thesis by (simp add: py_int_def spec_excess_amount_def)
qed

lemma py_int_deficit:
  assumes "0 < threshold_range lvl" "ratio lvl < avg - 1 / 4"
  shows "py_int ((avg - 3 / 20 - ratio lvl) * of_int (threshold_range lvl)) =
         spec_deficit_amount avg lvl"
proof -
  have "0 < avg - 3 / 20 - ratio lvl" using assms(2) by simp
  moreover have "(0::rat) < of_int (threshold_range lvl)" using assms(1) by simp
  ultimately have "0 < (avg - 3 / 20 - ratio lvl) * of_int (threshold_range lvl)"
    by (rule mult_pos_pos)
  then show ?thesis by (simp add: py_int_def spec_deficit_amount_def)
qed

lemma classify_loop_step:
  "classify_loop avg ((wid, lvl) # levels) (e, d) =
     classify_loop avg levels
       (if recorded_excess avg lvl then AList.update wid (spec_excess_amount avg lvl) e else e,
        if recorded_deficit avg lvl then AList.update wid (spec_deficit_amount avg lvl) d else d)"
proof (cases "0 < threshold_range lvl")
  case False
  then show ?thesis by (simp add: recorded_excess_def recorded_deficit_def)
next
  case pos: True
  show ?thesis
  proof (cases "avg + 1 / 4 < ratio lvl")
    case True
    then have nd: "\<not> recorded_deficit avg lvl" by (simp add: recorded_deficit_def)
    show ?thesis
      using pos True nd py_int_excess[OF pos True]
      by (simp add: Let_def recorded_excess_def)
  next
    case ne: False
    then have nx: "\<not> recorded_excess avg lvl" by (simp add: recorded_excess_def)
    show ?thesis
    proof (cases "ratio lvl < avg - 1 / 4")
      case True
      show ?thesis
        using pos ne True nx py_int_deficit[OF pos True]
        by (simp add: Let_def recorded_deficit_def)
    next
      case False
      then show ?thesis using pos ne nx by (simp add: recorded_deficit_def)
    qed
  qed
qed

lemma classify_loop_none:
  assumes "\<forall>p \<in> set levels. \<not> recorded_excess avg (snd p) \<and> \<not> recorded_deficit avg (snd p)"
  shows "classify_loop avg levels (e, d) = (e, d)"
  using assms
proof (induction levels)
  case Nil
  then show ?case by simp
next
  case (Cons p levels)
  obtain k lvl where p: "p = (k, lvl)" by (cases p)
  show ?case using Cons unfolding p classify_loop_step by simp
qed

lemma classify_item_eq:
  assumes "1 < length (id_warehouses data)" "valid_levels (id_warehouses data) \<noteq> []"
  shows "classify_item data =
     Some (classify_loop (spec_mean_ratio (id_warehouses data)) (id_warehouses data) ([], []))"
  using assms
  by (simp add: classify_item_def ratio_loop_eq spec_mean_ratio_def)

lemma classify_item_None:
  assumes "\<not> 1 < length (id_warehouses data) \<or> valid_levels (id_warehouses data) = []"
  shows "classify_item data = None"
  using assms
  by (auto simp: classify_item_def ratio_loop_eq)

lemma identify_loop_Nil:
  assumes "\<forall>p \<in> set xs. identify_item (snd p) = None"
  shows "identify_loop xs acc = acc"
  using assms by (induction xs) auto

lemma holdings_distinct:
  "distinct (map fst ws) \<Longrightarrow> distinct (map fst (holdings ws item))"
proof (induction ws)
  case Nil
  then show ?case by (simp add: holdings_def)
next
  case (Cons p ws)
  obtain wid w where p: "p = (wid, w)" by (cases p)
  have "wid \<notin> fst ` set (holdings ws item)"
    using holdings_keys[of ws item] Cons.prems by (auto simp: p)
  then show ?case using Cons by (auto simp: p holdings_Cons split: option.splits)
qed

lemma holdings_item_mem:
  "holdings ws item \<noteq> [] \<Longrightarrow> item \<in> set (all_items ws)"
proof (induction ws)
  case Nil
  then show ?case by (simp add: holdings_def)
next
  case (Cons p ws)
  obtain wid w where p: "p = (wid, w)" by (cases p)
  show ?case
  proof (cases "map_of (wh_items w) item")
    case None
    then have "holdings ws item \<noteq> []" using Cons.prems by (simp add: p holdings_Cons)
    from Cons.IH[OF this] show ?thesis by (simp add: all_items_def)
  next
    case (Some it)
    then have "item \<in> fst ` set (wh_items w)" by (metis domI dom_map_of_conv_image_fst)
    then show ?thesis by (auto simp: all_items_def p)
  qed
qed

lemma balanced_identify_item:
  assumes "wf_warehouses ws" "balanced ws"
    and "map_of (collect_inventory_loop ws []) item = Some data"
  shows "identify_item data = None"
proof -
  let ?h = "holdings ws item"
  from collect_inventory_holdings(2)[OF assms(1,3)]
  have h: "id_warehouses data = ?h" "?h \<noteq> []" by auto
  show ?thesis
  proof (cases "1 < length ?h \<and> valid_levels ?h \<noteq> []")
    case False
    then have "classify_item data = None"
      by (intro classify_item_None) (auto simp: h(1))
    then show ?thesis by (simp add: identify_item_def)
  next
    case True
    have "item \<in> set (all_items ws)" using h(2) by (rule holdings_item_mem)
    with assms(2) True have b: "\<forall>p \<in> set ?h. 0 < threshold_range (snd p) \<longrightarrow>
               \<bar>ratio (snd p) - spec_mean_ratio ?h\<bar> \<le> 1 / 4"
      by (auto simp: balanced_def list_all_iff)
    have "\<forall>p \<in> set ?h. \<not> recorded_excess (spec_mean_ratio ?h) (snd p) \<and>
                          \<not> recorded_deficit (spec_mean_ratio ?h) (snd p)"
    proof
      fix p assume "p \<in> set ?h"
      with b have "0 < threshold_range (snd p) \<longrightarrow>
               \<bar>ratio (snd p) - spec_mean_ratio ?h\<bar> \<le> 1 / 4" by blast
      then show "\<not> recorded_excess (spec_mean_ratio ?h) (snd p) \<and>
                          \<not> recorded_deficit (spec_mean_ratio ?h) (snd p)"
        by (auto simp: recorded_excess_def recorded_deficit_def)
    qed
    then have "classify_loop (spec_mean_ratio ?h) ?h ([], []) = ([], [])"
      by (rule classify_loop_none)
    moreover have "classify_item data = Some (classify_loop (spec_mean_ratio ?h) ?h ([], []))"
      using classify_item_eq[of data] True by (simp add: h(1))
    ultimately show ?thesis by (simp add: identify_item_def)
  qed
qed

lemma balanced_no_decisions:
  assumes "wf_warehouses warehouses" and "balanced warehouses"
  shows "balance_inventory warehouses = Inr []"
proof -
  let ?inv = "collect_inventory_loop warehouses []"
  have dist: "distinct (map fst ?inv)"
    using assms(1) by (rule collect_inventory_holdings(1))
  have "\<forall>p \<in> set ?inv. identify_item (snd p) = None"
  proof
    fix p assume p: "p \<in> set ?inv"
    then have "map_of ?inv (fst p) = Some (snd p)" using dist by simp
    from balanced_identify_item[OF assms this] show "identify_item (snd p) = None" .
  qed
  then have "identify_inventory_imbalances warehouses = []"
    unfolding identify_inventory_imbalances_def by (rule identify_loop_Nil)
  then show ?thesis by (simp add: balance_inventory_def)
qed

section \<open>Consolidation and schedule staggering\<close>

lemma find_consolidation_candidates_loop_eq:
  "find_consolidation_candidates_loop shipments acc =
     acc @ filter (\<lambda>s. status s = IN_TRANSIT \<and> estimated_arrival s \<noteq> None) shipments"
  by (induction shipments arbitrary: acc) auto

lemma find_consolidation_candidates_eq:
  "find_consolidation_candidates shipments =
     filter (\<lambda>s. status s = IN_TRANSIT \<and> estimated_arrival s \<noteq> None) shipments"
  by (simp add: find_consolidation_candidates_def find_consolidation_candidates_loop_eq)

lemma generate_optimized_routes_loop_etas:
  assumes "\<forall>s \<in> set shipments. status s = IN_TRANSIT \<and> estimated_arrival s \<noteq> None"
  shows "\<exists>rs es. generate_optimized_routes_loop now shipments (routes, etas) =
            (routes @ rs, etas @ es) \<and> length rs = length shipments \<and>
            list_all2 (revised_eta now) shipments es"
  using assms
proof (induction shipments arbitrary: routes etas)
  case Nil
  then show ?case by simp
next
  case (Cons s shipments)
  from Cons.prems obtain eta where eta: "estimated_arrival s = Some eta" and st: "status s = IN_TRANSIT"
    by auto
  let ?r = "''opt_route_'' @ origin s @ ''_'' @ destination s"
  let ?e = "now + (eta - now) * (9 / 10)"
  have step: "generate_optimized_routes_loop now (s # shipments) (routes, etas) =
      generate_optimized_routes_loop now shipments (routes @ [?r], etas @ [?e])"
    by (simp add: eta Let_def)
  from Cons.IH[of "routes @ [?r]" "etas @ [?e]"] Cons.prems obtain rs es where
    r: "generate_optimized_routes_loop now shipments (routes @ [?r], etas @ [?e]) =
          ((routes @ [?r]) @ rs, (etas @ [?e]) @ es)"
    "length rs = length shipments" "list_all2 (revised_eta now) shipments es"
    by auto
  have "revised_eta now s ?e"
    by (simp add: revised_eta_def eta st)
  then have "list_all2 (revised_eta now) (s # shipments) (?e # es)"
    using r(3) by simp
  moreover have "generate_optimized_routes_loop now (s # shipments) (routes, etas) =
      (routes @ (?r # rs), etas @ (?e # es))"
    using step r(1) by simp
  moreover have "length (?r # rs) = length (s # shipments)" using r(2) by simp
  ultimately show ?case by blast
qed

lemma optimize_routes_loop_plans:
  "\<exists>new tick'. optimize_routes_loop clock rc groups tick recs = (recs @ new, tick') \<and>
      (\<forall>r \<in> set new. plan_of_candidates clock (\<Union>g \<in> set groups. set (snd g)) r)"
proof (induction groups arbitrary: tick recs)
  case Nil
  then show ?case by simp
next
  case (Cons g groups)
  obtain region shipments where g: "g = (region, shipments)" by (cases g)
  let ?all = "\<Union>g \<in> set (g # groups). set (snd g)"
  have mono: "plan_of_candidates clock ?all r"
    if "plan_of_candidates clock (\<Union>g \<in> set groups. set (snd g)) r" for r
    using that unfolding plan_of_candidates_def by (auto 4 4)
  let ?cands = "find_consolidation_candidates shipments"
  show ?case
  proof (cases "length shipments < 2 \<or> ?cands = []")
    case True
    then have "optimize_routes_loop clock rc (g # groups) tick recs =
        optimize_routes_loop clock rc groups tick recs"
      by (auto simp: g Let_def)
    then show ?thesis using Cons.IH[of tick recs] mono by auto
  next
    case False
    have cprops: "\<forall>s \<in> set ?cands. status s = IN_TRANSIT \<and> estimated_arrival s \<noteq> None"
      and csub: "set ?cands \<subseteq> set shipments"
      by (auto simp: find_consolidation_candidates_eq)
    from generate_optimized_routes_loop_etas[OF cprops, of "clock tick" "[]" "[]"]
    obtain rs es where gen: "generate_optimized_routes_loop (clock tick) ?cands ([], []) = (rs, es)"
      "length rs = length ?cands" "list_all2 (revised_eta (clock tick)) ?cands es"
      by auto
    have rne: "rs \<noteq> []" using gen(2) False by auto
    define rec where "rec =
       \<lparr>optimization_id = (region, clock (tick + 1)), ro_shipment_ids = map shp_id ?cands,
        optimized_routes = rs, new_etas = es,
        estimated_savings = \<lparr>sv_distance_km = 120, sv_fuel_liters = 35, sv_time_hours = 5 / 2,
          sv_cost_usd = 180\<rparr>\<rparr>"
    have step: "optimize_routes_loop clock rc (g # groups) tick recs =
        optimize_routes_loop clock rc groups (tick + 2) (recs @ [rec])"
      using False rne by (simp add: g Let_def generate_optimized_routes_def gen(1) rec_def)
    have prec: "plan_of_candidates clock ?all rec"
      unfolding plan_of_candidates_def
      using csub gen(3)
      by (intro exI[of _ ?cands] exI[of _ tick]) (auto simp: rec_def g)
    from Cons.IH[of "tick + 2" "recs @ [rec]"] obtain new tick' where
      r: "optimize_routes_loop clock rc groups (tick + 2) (recs @ [rec]) =
            ((recs @ [rec]) @ new, tick')"
      "\<forall>r \<in> set new. plan_of_candidates clock (\<Union>g \<in> set groups. set (snd g)) r"
      by blast
    have "optimize_routes_loop clock rc (g # groups) tick recs = (recs @ (rec # new), tick')"
      using step r(1) by simp
    moreover have "\<forall>r \<in> set (rec # new). plan_of_candidates clock ?all r"
      using prec r(2) mono by auto
    ultimately show ?thesis by blast
  qed
qed

lemma group_append_members:
  "(\<Union>g \<in> set (group_append k x groups). set (snd g)) \<subseteq> insert x (\<Union>g \<in> set groups. set (snd g))"
proof
  fix y assume "y \<in> (\<Union>g \<in> set (group_append k x groups). set (snd g))"
  then obtain g where g: "g \<in> set (group_append k x groups)" "y \<in> set (snd g)" by auto
  from g(1) have "g = (k, (case map_of groups k of None \<Rightarrow> [] | Some xs \<Rightarrow> xs) @ [x]) \<or> g \<in> set groups"
    unfolding group_append_def by (rule set_alist_update)
  then show "y \<in> insert x (\<Union>g \<in> set groups. set (snd g))"
  proof
    assume "g \<in> set groups"
    then show ?thesis using g(2) by auto
  next
    assume eq: "g = (k, (case map_of groups k of None \<Rightarrow> [] | Some xs \<Rightarrow> xs) @ [x])"
    show ?thesis
    proof (cases "map_of groups k")
      case None
      then show ?thesis using g(2) eq by simp
    next
      case (Some xs)
      then have "(k, xs) \<in> set groups" by (rule map_of_SomeD)
      then show ?thesis using g(2) eq Some by force
    qed
  qed
qed

lemma group_shipments_by_region_loop_members:
  "(\<Union>g \<in> set (group_shipments_by_region_loop act groups). set (snd g)) \<subseteq>
     snd ` set act \<union> (\<Union>g \<in> set groups. set (snd g))"
proof (induction act arbitrary: groups)
  case Nil
  then show ?case by simp
next
  case (Cons p act)
  obtain sid s where p: "p = (sid, s)" by (cases p)
  show ?case
    using Cons.IH[of "group_append (region_of (destination s)) s groups"]
      group_append_members[of "region_of (destination s)" s groups]
    by (auto simp: p)
qed

lemma staggered_schedules_loop_eq:
  "staggered_schedules_loop start i shipments acc =
     acc @ map (stagger_slot start) [i ..< i + length shipments]"
proof (induction shipments arbitrary: i acc)
  case Nil
  then show ?case by simp
next
  case (Cons s shipments)
  have "i < i + length (s # shipments)" by simp
  then have "[i ..< i + length (s # shipments)] = i # [Suc i ..< i + length (s # shipments)]"
    by (rule upt_conv_Cons)
  moreover have "i + length (s # shipments) = Suc i + length shipments" by simp
  ultimately have "[i ..< i + length (s # shipments)] = i # [Suc i ..< Suc i + length shipments]"
    by (simp only:)
  then show ?case
    using Cons.IH[of "Suc i"] by (simp add: Let_def stagger_slot_def del: upt_Suc)
qed

lemma fold_min_Min: "fold min ts (t::rat) = Min (set (t # ts))"
proof (induction ts arbitrary: t)
  case Nil
  then show ?case by simp
next
  case (Cons a ts)
  have "fold min (a # ts) t = fold min ts (min a t)" by simp
  also have "\<dots> = Min (set (min a t # ts))" by (rule Cons.IH)
  also have "\<dots> = Min (set (t # a # ts))"
    by (cases "ts = []") (simp_all add: min.commute min.left_commute min.assoc)
  finally show ?case .
qed

lemma min_time_Min: "ts \<noteq> [] \<Longrightarrow> min_time ts = Inr (Min (set ts))"
  by (cases ts) (simp_all add: fold_min_Min del: set_simps)

lemma map_filter_set:
  "set (List.map_filter f (sort_key k xs)) = set (List.map_filter f xs)"
  by (simp add: List.map_filter_def)

lemma generate_staggered_schedules_eq:
  assumes "\<exists>s \<in> set shipments. estimated_arrival s \<noteq> None"
  shows "generate_staggered_schedules shipments =
     Inr (map (stagger_slot (stagger_start shipments)) [0 ..< length shipments])"
proof -
  let ?sorted = "sort_key (\<lambda>s. - priority s) shipments"
  let ?etas = "List.map_filter estimated_arrival ?sorted"
  have "set ?etas \<noteq> {}"
    using assms by (auto simp: map_filter_set List.map_filter_def)
  then have ne: "?etas \<noteq> []" by auto
  have m: "min_time ?etas = Inr (Min (set (List.map_filter estimated_arrival shipments)))"
    using min_time_Min[OF ne] by (simp only: map_filter_set)
  show ?thesis
    unfolding generate_staggered_schedules_def Let_def m
    by (simp add: staggered_schedules_loop_eq stagger_start_def max_def Let_def)
qed

lemma group_by_date_loop_etas:
  assumes "\<forall>g \<in> set groups. \<forall>s \<in> set (snd g). estimated_arrival s \<noteq> None"
  shows "\<forall>g \<in> set (group_by_date_loop shipments groups). \<forall>s \<in> set (snd g).
           estimated_arrival s \<noteq> None"
  using assms
proof (induction shipments arbitrary: groups)
  case Nil
  then show ?case by simp
next
  case (Cons s shipments)
  show ?case
  proof (cases "estimated_arrival s")
    case None
    then show ?thesis using Cons by simp
  next
    case (Some eta)
    have "\<forall>g \<in> set (group_append (date_of eta) s groups). \<forall>x \<in> set (snd g).
            estimated_arrival x \<noteq> None"
    proof (intro ballI)
      fix g x assume "g \<in> set (group_append (date_of eta) s groups)" "x \<in> set (snd g)"
      then have "x \<in> insert s (\<Union>g \<in> set groups. set (snd g))"
        using group_append_members[of "date_of eta" s groups] by blast
      then show "estimated_arrival x \<noteq> None" using Some Cons.prems by auto
    qed
    from Cons.IH[OF this] show ?thesis by (simp add: Some)
  qed
qed

lemma date_groups_loop_total:
  assumes "\<forall>g \<in> set groups. \<forall>s \<in> set (snd g). estimated_arrival s \<noteq> None"
  shows "\<exists>new. date_groups_loop dest groups recs = Inr (recs @ new)"
  using assms
proof (induction groups arbitrary: recs)
  case Nil
  then show ?case by simp
next
  case (Cons g groups)
  obtain date ss where g: "g = (date, ss)" by (cases g)
  show ?case
  proof (cases "length ss \<ge> 2")
    case False
    then show ?thesis using Cons by (simp add: g)
  next
    case True
    then obtain s where "s \<in> set ss" by (cases ss) auto
    then have "\<exists>s \<in> set ss. estimated_arrival s \<noteq> None"
      using Cons.prems by (auto simp: g)
    from generate_staggered_schedules_eq[OF this]
    obtain sch where sch: "generate_staggered_schedules ss = Inr sch" by blast
    let ?rec = "\<lparr>adjustment_id = (dest, date), sa_shipment_ids = map shp_id ss,
                 new_schedules = sch, sa_reason = ''optimize_receiving_operations''\<rparr>"
    from Cons.IH[of "recs @ [?rec]"] Cons.prems obtain new where
      "date_groups_loop dest groups (recs @ [?rec]) = Inr ((recs @ [?rec]) @ new)" by auto
    then have "date_groups_loop dest (g # groups) recs = Inr (recs @ (?rec # new))"
      using True sch by (simp add: g Let_def)
    then show ?thesis by blast
  qed
qed

lemma destination_groups_loop_total:
  "\<exists>new. destination_groups_loop groups recs = Inr (recs @ new)"
proof (induction groups arbitrary: recs)
  case Nil
  then show ?case by simp
next
  case (Cons g groups)
  obtain dest ss where g: "g = (dest, ss)" by (cases g)
  show ?case
  proof (cases "length ss < 2")
    case True
    then show ?thesis using Cons.IH[of recs] by (simp add: g)
  next
    case False
    have "\<forall>g \<in> set (group_by_date_loop ss []). \<forall>s \<in> set (snd g). estimated_arrival s \<noteq> None"
      by (rule group_by_date_loop_etas) simp
    from date_groups_loop_total[OF this, of dest recs] obtain new1 where
      n1: "date_groups_loop dest (group_by_date_loop ss []) recs = Inr (recs @ new1)" by blast
    from Cons.IH[of "recs @ new1"] obtain new2 where
      "destination_groups_loop groups (recs @ new1) = Inr ((recs @ new1) @ new2)" by blast
    then have "destination_groups_loop (g # groups) recs = Inr (recs @ (new1 @ new2))"
      using False n1 by (simp add: g)
    then show ?thesis by blast
  qed
qed

lemma optimize_schedules_total: "\<exists>recs. optimize_schedules active = Inr recs"
  using destination_groups_loop_total[of "group_by_destination_loop active []" "[]"]
  by (simp add: optimize_schedules_def)

lemma floor_rat_numeral_divide:
  "\<lfloor>numeral a / numeral b :: rat\<rfloor> = numeral a div numeral b"
  by (metis floor_divide_of_int_eq of_int_numeral)

lemma generate_staggered_schedules_slots:
  assumes "generate_staggered_schedules shipments = Inr sch"
  shows "sch = map (stagger_slot (stagger_start shipments)) [0 ..< length shipments]"
proof (cases "\<exists>s \<in> set shipments. estimated_arrival s \<noteq> None")
  case True
  from generate_staggered_schedules_eq[OF this] assms show ?thesis by simp
next
  case False
  then have "List.map_filter estimated_arrival (sort_key (\<lambda>s. - priority s) shipments) = []"
    by (auto simp: List.map_filter_def filter_empty_conv)
  then show ?thesis using assms by (simp add: generate_staggered_schedules_def)
qed

text \<open>
  What holds of claim C6: the arrival times of one group start at the later of 09:00 and
  the earliest estimated arrival, consecutive ones are two hours apart, and the windows
  of half an hour on either side do not overlap.
\<close>

lemma staggered_arrivals_two_hours_apart:
  assumes "generate_staggered_schedules shipments = Inr sch" and "Suc k < length sch"
  shows "sch_estimated_arrival (sch ! 0) = stagger_start shipments"
    and "sch_estimated_arrival (sch ! Suc k) = sch_estimated_arrival (sch ! k) + hours 2"
proof -
  have sch: "sch = map (stagger_slot (stagger_start shipments)) [0 ..< length shipments]"
    using assms(1) by (rule generate_staggered_schedules_slots)
  then have len: "length sch = length shipments" by simp
  have k: "0 < length shipments" "k < length shipments" "Suc k < length shipments"
    using assms(2) len by auto
  have nth: "sch ! i = stagger_slot (stagger_start shipments) i" if "i < length shipments" for i
    using that by (simp add: sch)
  show "sch_estimated_arrival (sch ! 0) = stagger_start shipments"
    by (simp add: nth[OF k(1)] stagger_slot_def hours_def)
  show "sch_estimated_arrival (sch ! Suc k) = sch_estimated_arrival (sch ! k) + hours 2"
    by (simp add: nth[OF k(2)] nth[OF k(3)] stagger_slot_def hours_def algebra_simps)
qed

lemma staggered_windows_disjoint:
  assumes "generate_staggered_schedules shipments = Inr sch" and "j < k" and "k < length sch"
  shows "delivery_window_end (sch ! j) < delivery_window_start (sch ! k)"
proof -
  have sch: "sch = map (stagger_slot (stagger_start shipments)) [0 ..< length shipments]"
    using assms(1) by (rule generate_staggered_schedules_slots)
  then have len: "length sch = length shipments" by simp
  have "Suc j \<le> k" using assms(2) by simp
  then have "(of_nat (Suc j) :: rat) \<le> of_nat k" by (simp only: of_nat_le_iff)
  then have "(of_nat j :: rat) + 1 \<le> of_nat k" by simp
  then have lt: "(of_nat j :: rat) * 7200 + 1800 < of_nat k * 7200 - 1800" by simp
  have nth: "sch ! i = stagger_slot (stagger_start shipments) i" if "i < length shipments" for i
    using that by (simp add: sch)
  have "j < length shipments" "k < length shipments" using assms(2,3) len by simp_all
  then show ?thesis
    using lt by (simp add: nth stagger_slot_def hours_def minutes_def algebra_simps)
qed

text \<open>
  Claim C6 fails on the pairing of shipments and schedules. The schedules are built over
  the group sorted by priority, but \<^verbatim>\<open>shipment_ids\<close> lists the group in the order of the
  active-shipment map, and the driver pairs the two lists by index. Here the shipment of
  priority 1 comes first in the map and the one of priority 9 second, both due at the same
  warehouse on the same day: the first slot (10:00, at 36000 seconds) stands against the
  shipment of priority 1, where the order by priority puts the other shipment first.
\<close>

theorem schedule_pairing_ignores_priority:
  "optimize_schedules
     [shipment_to ''s1'' ''warehouse_1'' IN_TRANSIT 1 (Some 36000),
      shipment_to ''s2'' ''warehouse_1'' IN_TRANSIT 9 (Some 39600)] =
   Inr [\<lparr>adjustment_id = (''warehouse_1'', 0),
         sa_shipment_ids = [''s1'', ''s2''],
         new_schedules =
           [\<lparr>sch_estimated_arrival = 36000, delivery_window_start = 34200,
             delivery_window_end = 37800\<rparr>,
            \<lparr>sch_estimated_arrival = 43200, delivery_window_start = 41400,
             delivery_window_end = 45000\<rparr>],
         sa_reason = ''optimize_receiving_operations''\<rparr>] \<and>
   map shp_id (sort_key (\<lambda>s. - priority s)
     (map snd [shipment_to ''s1'' ''warehouse_1'' IN_TRANSIT 1 (Some 36000),
               shipment_to ''s2'' ''warehouse_1'' IN_TRANSIT 9 (Some 39600)])) =
     [''s2'', ''s1'']"
  by (simp add: optimize_schedules_def shipment_to_def group_append_def
      generate_staggered_schedules_def List.map_filter_def date_of_def nine_am_def hours_def
      minutes_def floor_rat_numeral_divide)

text \<open>
  Claim C10. The optimization raises nothing, and every route optimization it returns is
  for a list of candidates among the active shipments, each in transit with a known
  estimated arrival, and its revised arrival times are, shipment by shipment, the clock
  reading of the plan plus nine tenths of the time from that reading to the shipment's
  estimated arrival: the fallback of eight hours is not used.
\<close>

theorem consolidation_eta_never_fallback:
  "\<exists>recs. optimize_logistics clock warehouses active_shipments route_conditions = Inr recs \<and>
     (\<forall>r. RouteOptimization r \<in> set recs \<longrightarrow>
        (\<exists>candidates tick. set candidates \<subseteq> snd ` set active_shipments \<and>
           ro_shipment_ids r = map shp_id candidates \<and>
           list_all2
             (\<lambda>s e. status s = IN_TRANSIT \<and>
                (\<exists>eta. estimated_arrival s = Some eta \<and>
                   e = clock tick + 9 / 10 * (eta - clock tick)))
             candidates (new_etas r)))"
proof -
  let ?groups = "group_shipments_by_region active_shipments"
  from optimize_routes_loop_plans[of clock route_conditions ?groups 0 "[]"]
  obtain rr tick' where rr: "optimize_routes clock 0 ?groups route_conditions = (rr, tick')"
    and plans: "\<forall>r \<in> set rr. plan_of_candidates clock (\<Union>g \<in> set ?groups. set (snd g)) r"
    by (auto simp: optimize_routes_def)
  have sub: "(\<Union>g \<in> set ?groups. set (snd g)) \<subseteq> snd ` set active_shipments"
    using group_shipments_by_region_loop_members[of active_shipments "[]"]
    by (simp add: group_shipments_by_region_def)
  from balance_inventory_total[of warehouses]
  obtain ir where ir: "balance_inventory warehouses = Inr ir" by blast
  from optimize_schedules_total[of active_shipments]
  obtain sr where sr: "optimize_schedules active_shipments = Inr sr" by blast
  have run: "optimize_logistics clock warehouses active_shipments route_conditions =
      Inr (map RouteOptimization rr @ map InventoryTransfer ir @ map ScheduleAdjustment sr)"
    by (simp add: optimize_logistics_def Let_def rr ir sr)
  have "\<exists>candidates tick. set candidates \<subseteq> snd ` set active_shipments \<and>
           ro_shipment_ids r = map shp_id candidates \<and>
           list_all2
             (\<lambda>s e. status s = IN_TRANSIT \<and>
                (\<exists>eta. estimated_arrival s = Some eta \<and>
                   e = clock tick + 9 / 10 * (eta - clock tick)))
             candidates (new_etas r)"
    if "RouteOptimization r \<in>
          set (map RouteOptimization rr @ map InventoryTransfer ir @ map ScheduleAdjustment sr)"
    for r
  proof -
    from that have "r \<in> set rr" by auto
    with plans obtain candidates tick where
      c: "set candidates \<subseteq> (\<Union>g \<in> set ?groups. set (snd g))"
         "ro_shipment_ids r = map shp_id candidates"
         "list_all2 (revised_eta (clock tick)) candidates (new_etas r)"
      unfolding plan_of_candidates_def by blast
    have "revised_eta (clock tick) =
        (\<lambda>s e. status s = IN_TRANSIT \<and>
                (\<exists>eta. estimated_arrival s = Some eta \<and>
                   e = clock tick + 9 / 10 * (eta - clock tick)))"
      by (simp add: revised_eta_def fun_eq_iff)
    then show ?thesis using c sub by (intro exI[of _ candidates] exI[of _ tick]) auto
  qed
  then show ?thesis using run by blast
qed

text \<open>
  An instance, with the clock at 0: two shipments in transit to the region \<open>north\<close>, due at
  36000 seconds, get the revised arrival 32400; the delayed shipment and the one without
  an estimated arrival are not candidates.
\<close>

theorem consolidation_eta_never_fallback_witness:
  "optimize_logistics (\<lambda>n. 0) []
     [shipment_to ''s1'' ''north_1'' IN_TRANSIT 5 (Some 36000),
      shipment_to ''s2'' ''north_2'' DELAYED 5 (Some 36000),
      shipment_to ''s3'' ''north_3'' IN_TRANSIT 5 None,
      shipment_to ''s4'' ''north_4'' IN_TRANSIT 5 (Some 36000)] [] =
   Inr [RouteOptimization
         \<lparr>optimization_id = (''north'', 0),
          ro_shipment_ids = [''s1'', ''s4''],
          optimized_routes = [''opt_route_a_north_1'', ''opt_route_a_north_4''],
          new_etas = [32400, 32400],
          estimated_savings =
            \<lparr>sv_distance_km = 120, sv_fuel_liters = 35, sv_time_hours = 5 / 2,
             sv_cost_usd = 180\<rparr>\<rparr>]"
  using consolidation_eta_never_fallback [of "\<lambda>n. 0" "[]"
     "[shipment_to ''s1'' ''north_1'' IN_TRANSIT 5 (Some 36000),
       shipment_to ''s2'' ''north_2'' DELAYED 5 (Some 36000),
       shipment_to ''s3'' ''north_3'' IN_TRANSIT 5 None,
       shipment_to ''s4'' ''north_4'' IN_TRANSIT 5 (Some 36000)]" "[]"]
  by (simp add: optimize_logistics_def optimize_routes_def group_shipments_by_region_def
      group_append_def region_of_def find_consolidation_candidates_def
      generate_optimized_routes_def shipment_to_def balance_inventory_def
      identify_inventory_imbalances_def optimize_schedules_def)

section \<open>The store: the snapshot is left as it was\<close>

lemma length_dict_set [simp]: "length (dict_set a k v st) = length st"
  by (simp add: dict_set_def split: option.splits obj.splits)

lemma nth_dict_set_other: "b \<noteq> a \<Longrightarrow> dict_set a k v st ! b = st ! b"
  by (simp add: dict_set_def split: option.splits obj.splits)

lemma deref_dict_set_other: "b \<noteq> a \<Longrightarrow> deref (dict_set a k v st) b = deref st b"
  by (simp add: deref_def nth_dict_set_other)

lemma amounts_at_dict_set_other: "b \<noteq> a \<Longrightarrow> amounts_at (dict_set a k v st) b = amounts_at st b"
  by (simp add: amounts_at_def deref_dict_set_other)

lemma amounts_at_dict_set_same:
  "is_amounts st a \<Longrightarrow> amounts_at (dict_set a k v st) a = AList.update k v (amounts_at st a)"
  by (auto simp: is_amounts_def amounts_at_def dict_set_def deref_def split: if_splits)

lemma is_amounts_dict_set: "is_amounts st b \<Longrightarrow> is_amounts (dict_set a k v st) b"
proof (cases "b = a")
  case False
  then show "is_amounts st b \<Longrightarrow> is_amounts (dict_set a k v st) b"
    by (simp add: is_amounts_def deref_dict_set_other)
next
  case True
  assume "is_amounts st b"
  then obtain al where "a < length st" "st ! a = AmountDict al"
    using True by (auto simp: is_amounts_def deref_def split: if_splits)
  then show "is_amounts (dict_set a k v st) b"
    using True by (simp add: is_amounts_def dict_set_def deref_def)
qed

lemma take_dict_set: "base \<le> a \<Longrightarrow> take base (dict_set a k v st) = take base st"
  by (simp add: dict_set_def split: option.splits obj.splits)

lemma classify_loop_st_step:
  "classify_loop_st avg ((wid, lvl) # levels) e d st =
     classify_loop_st avg levels e d
       (if recorded_excess avg lvl then dict_set e wid (spec_excess_amount avg lvl) st
        else if recorded_deficit avg lvl then dict_set d wid (spec_deficit_amount avg lvl) st
        else st)"
proof (cases "0 < threshold_range lvl")
  case False
  then show ?thesis by (simp add: recorded_excess_def recorded_deficit_def)
next
  case pos: True
  show ?thesis
  proof (cases "avg + 1 / 4 < ratio lvl")
    case True
    then have nd: "\<not> recorded_deficit avg lvl" by (simp add: recorded_deficit_def)
    show ?thesis
      using pos True nd py_int_excess[OF pos True]
      by (simp add: Let_def recorded_excess_def)
  next
    case ne: False
    then have nx: "\<not> recorded_excess avg lvl" by (simp add: recorded_excess_def)
    show ?thesis
    proof (cases "ratio lvl < avg - 1 / 4")
      case True
      show ?thesis
        using pos ne True nx py_int_deficit[OF pos True]
        by (simp add: Let_def recorded_deficit_def)
    next
      case False
      then show ?thesis using pos ne nx by (simp add: recorded_deficit_def)
    qed
  qed
qed

lemma recorded_exclusive: "recorded_excess avg lvl \<Longrightarrow> \<not> recorded_deficit avg lvl"
  by (simp add: recorded_excess_def recorded_deficit_def)

lemma classify_loop_st_sim:
  assumes "is_amounts st e" "is_amounts st d" "e \<noteq> d"
  shows "length (classify_loop_st avg levels e d st) = length st \<and>
         (\<forall>b. b \<noteq> e \<and> b \<noteq> d \<longrightarrow> classify_loop_st avg levels e d st ! b = st ! b) \<and>
         is_amounts (classify_loop_st avg levels e d st) e \<and>
         is_amounts (classify_loop_st avg levels e d st) d \<and>
         classify_loop avg levels (amounts_at st e, amounts_at st d) =
           (amounts_at (classify_loop_st avg levels e d st) e,
            amounts_at (classify_loop_st avg levels e d st) d)"
  using assms(1,2)
proof (induction levels arbitrary: st)
  case Nil
  then show ?case by simp
next
  case (Cons p levels)
  obtain wid lvl where p: "p = (wid, lvl)" by (cases p)
  define st1 where "st1 =
       (if recorded_excess avg lvl then dict_set e wid (spec_excess_amount avg lvl) st
        else if recorded_deficit avg lvl then dict_set d wid (spec_deficit_amount avg lvl) st
        else st)"
  have step: "classify_loop_st avg (p # levels) e d st = classify_loop_st avg levels e d st1"
    unfolding p classify_loop_st_step st1_def ..
  have ok1: "is_amounts st1 e" "is_amounts st1 d"
    using Cons.prems by (auto simp: st1_def is_amounts_dict_set)
  have len1: "length st1 = length st" by (simp add: st1_def)
  have oth1: "b \<noteq> e \<and> b \<noteq> d \<longrightarrow> st1 ! b = st ! b" for b
    by (simp add: st1_def nth_dict_set_other)
  have am1: "(amounts_at st1 e, amounts_at st1 d) =
      (if recorded_excess avg lvl
       then AList.update wid (spec_excess_amount avg lvl) (amounts_at st e) else amounts_at st e,
       if recorded_deficit avg lvl
       then AList.update wid (spec_deficit_amount avg lvl) (amounts_at st d) else amounts_at st d)"
    using Cons.prems assms(3) recorded_exclusive[of avg lvl]
    by (auto simp: st1_def amounts_at_dict_set_same amounts_at_dict_set_other)
  have pure: "classify_loop avg (p # levels) (amounts_at st e, amounts_at st d) =
      classify_loop avg levels (amounts_at st1 e, amounts_at st1 d)"
    unfolding p classify_loop_step am1 ..
  from Cons.IH[OF ok1] show ?case
    unfolding step pure using len1 oth1 by simp
qed

lemma is_amounts_less: "is_amounts st a \<Longrightarrow> a < length st"
  by (auto simp: is_amounts_def deref_def split: if_splits)

lemma same_below_take:
  assumes "length st' = length st2" "\<forall>b. b \<noteq> e \<and> b \<noteq> d \<longrightarrow> st' ! b = st2 ! b"
    and "n \<le> e" "n \<le> d" "n \<le> length st2"
  shows "take n st' = take n st2"
proof (rule nth_equalityI)
  show "length (take n st') = length (take n st2)" using assms(1) by simp
next
  fix i assume "i < length (take n st')"
  then have "i < n" by simp
  then have "i \<noteq> e \<and> i \<noteq> d" using assms(3,4) by auto
  then show "take n st' ! i = take n st2 ! i"
    using assms(2) \<open>i < n\<close> by simp
qed

lemma identify_item_st_sim:
  assumes "identify_item_st data st = (r, st')"
  shows "length st \<le> length st' \<and> take (length st) st' = st \<and>
    (case r of
       None \<Rightarrow> identify_item data = None
     | Some ir \<Rightarrow>
         identify_item data = Some (abs_entry st' ir) \<and>
         length st \<le> excess_ref ir \<and> length st \<le> deficit_ref ir \<and>
         excess_ref ir \<noteq> deficit_ref ir \<and>
         is_amounts st' (excess_ref ir) \<and> is_amounts st' (deficit_ref ir))"
proof (cases "length (id_warehouses data) \<le> 1")
  case True
  then have "r = None" "st' = st" using assms by (simp_all add: identify_item_st_def)
  moreover have "identify_item data = None"
    using True by (simp add: identify_item_def classify_item_def)
  ultimately show ?thesis by simp
next
  case many: False
  define e where "e = length st"
  define d where "d = Suc (length st)"
  define st2 where "st2 = st @ [AmountDict [], AmountDict []]"
  obtain total n where tn: "ratio_loop (id_warehouses data) (0, 0) = (total, n)"
    by (cases "ratio_loop (id_warehouses data) (0, 0)")
  have a2: "is_amounts st2 e" "is_amounts st2 d" "e \<noteq> d"
    by (simp_all add: is_amounts_def deref_def st2_def e_def d_def nth_append)
  have e2: "amounts_at st2 e = []" "amounts_at st2 d = []"
    by (simp_all add: amounts_at_def deref_def st2_def e_def d_def nth_append)
  have t2: "take (length st) st2 = st" "length st \<le> length st2"
    by (simp_all add: st2_def)
  show ?thesis
  proof (cases "n = 0")
    case True
    then have "r = None" "st' = st2"
      using assms many
      by (simp_all add: identify_item_st_def alloc_def tn st2_def)
    moreover have "identify_item data = None"
      using True many by (simp add: identify_item_def classify_item_def tn)
    ultimately show ?thesis using t2 by simp
  next
    case False
    define avg where "avg = total / of_nat n"
    define st3 where "st3 = classify_loop_st avg (id_warehouses data) e d st2"
    from classify_loop_st_sim[OF a2, of avg "id_warehouses data"]
    have len3: "length st3 = length st2"
      and oth3: "\<forall>b. b \<noteq> e \<and> b \<noteq> d \<longrightarrow> st3 ! b = st2 ! b"
      and a3: "is_amounts st3 e" "is_amounts st3 d"
      and cl: "classify_loop avg (id_warehouses data) ([], []) =
                 (amounts_at st3 e, amounts_at st3 d)"
      by (simp_all add: st3_def e2)
    have t3: "take (length st) st3 = st"
      using same_below_take[OF len3 oth3, of "length st"] t2 by (simp add: e_def d_def)
    have ci: "classify_item data = Some (amounts_at st3 e, amounts_at st3 d)"
      using many False cl by (simp add: classify_item_def tn avg_def)
    have run: "identify_item_st data st =
        (if amounts_at st3 e \<noteq> [] \<and> amounts_at st3 d \<noteq> []
         then (Some \<lparr>imr_name = id_name data, imr_unit = id_unit data,
                     excess_ref = e, deficit_ref = d\<rparr>, st3)
         else (None, st3))"
      using many False
      by (simp add: identify_item_st_def alloc_def tn Let_def st3_def avg_def st2_def e_def d_def)
    show ?thesis
    proof (cases "amounts_at st3 e \<noteq> [] \<and> amounts_at st3 d \<noteq> []")
      case True
      then have r: "r = Some \<lparr>imr_name = id_name data, imr_unit = id_unit data,
                     excess_ref = e, deficit_ref = d\<rparr>" and s: "st' = st3"
        using assms run by simp_all
      have "identify_item data = Some (abs_entry st3 \<lparr>imr_name = id_name data,
          imr_unit = id_unit data, excess_ref = e, deficit_ref = d\<rparr>)"
        using True by (simp add: identify_item_def ci abs_entry_def)
      then show ?thesis
        using t3 len3 t2 a3 a2(3) by (simp add: r s e_def d_def)
    next
      case no: False
      then have r: "r = None" and s: "st' = st3" using assms run by auto
      have "identify_item data = None" using no by (auto simp: identify_item_def ci)
      then show ?thesis using t3 len3 t2 by (simp add: r s)
    qed
  qed
qed

lemma take_nth_eq:
  assumes "take n st' = take n st" "a < n"
  shows "st' ! a = st ! a"
  by (metis assms nth_take)

lemma deref_extend:
  assumes "take (length st) st' = st" "length st \<le> length st'" "a < length st"
  shows "deref st' a = deref st a"
proof -
  have "st' ! a = st ! a"
    using take_nth_eq[of "length st" st' st a] assms by simp
  then show ?thesis using assms by (simp add: deref_def)
qed

lemma refs_of_update:
  assumes "distinct (refs_of al)" "excess_ref v \<notin> set (refs_of al)"
    "deficit_ref v \<notin> set (refs_of al)" "excess_ref v \<noteq> deficit_ref v"
  shows "distinct (refs_of (AList.update k v al)) \<and>
         set (refs_of (AList.update k v al)) \<subseteq>
           insert (excess_ref v) (insert (deficit_ref v) (set (refs_of al)))"
  using assms
proof (induction al)
  case Nil
  then show ?case by (simp add: refs_of_def)
next
  case (Cons p al)
  show ?case
  proof (cases "fst p = k")
    case True
    then show ?thesis using Cons.prems by (auto simp: refs_of_def)
  next
    case False
    have "distinct (refs_of al)" "excess_ref v \<notin> set (refs_of al)"
      "deficit_ref v \<notin> set (refs_of al)"
      using Cons.prems by (auto simp: refs_of_def)
    from Cons.IH[OF this Cons.prems(4)] show ?thesis
      using False Cons.prems by (auto simp: refs_of_def)
  qed
qed

lemma abs_entries_update:
  "abs_entries st (AList.update k v al) = AList.update k (abs_entry st v) (abs_entries st al)"
  by (induction al) (auto simp: abs_entries_def)

lemma refs_ok_extend:
  assumes "refs_ok base st acc" "take (length st) st' = st" "length st \<le> length st'"
  shows "refs_ok base st' acc" and "abs_entries st' acc = abs_entries st acc"
proof -
  have same: "deref st' a = deref st a" if "a \<in> set (refs_of acc)" for a
  proof -
    have "a < length st" using assms(1) that by (auto simp: refs_ok_def dest: is_amounts_less)
    then show ?thesis using deref_extend[OF assms(2,3)] by simp
  qed
  then show "refs_ok base st' acc"
    using assms(1) by (auto simp: refs_ok_def is_amounts_def)
  have "abs_entry st' (snd p) = abs_entry st (snd p)" if "p \<in> set acc" for p
  proof -
    have "excess_ref (snd p) \<in> set (refs_of acc)" "deficit_ref (snd p) \<in> set (refs_of acc)"
      using that by (auto simp: refs_of_def)
    then show ?thesis using same by (simp add: abs_entry_def amounts_at_def)
  qed
  then show "abs_entries st' acc = abs_entries st acc"
    by (simp add: abs_entries_def)
qed

lemma identify_loop_st_sim:
  assumes "refs_ok base st acc" "base \<le> length st" "identify_loop_st xs acc st = (acc', st')"
  shows "refs_ok base st' acc' \<and> take base st' = take base st \<and> length st \<le> length st' \<and>
         abs_entries st' acc' = identify_loop xs (abs_entries st acc)"
  using assms
proof (induction xs arbitrary: acc st)
  case Nil
  then show ?case by simp
next
  case (Cons x xs)
  obtain item data where x: "x = (item, data)" by (cases x)
  obtain r st1 where r: "identify_item_st data st = (r, st1)"
    by (cases "identify_item_st data st")
  from identify_item_st_sim[OF r] have
    len1: "length st \<le> length st1" and t1: "take (length st) st1 = st" and
    cases: "case r of None \<Rightarrow> identify_item data = None
         | Some ir \<Rightarrow> identify_item data = Some (abs_entry st1 ir) \<and>
             length st \<le> excess_ref ir \<and> length st \<le> deficit_ref ir \<and>
             excess_ref ir \<noteq> deficit_ref ir \<and>
             is_amounts st1 (excess_ref ir) \<and> is_amounts st1 (deficit_ref ir)"
    by auto
  from refs_ok_extend[OF Cons.prems(1) t1 len1] have
    ok1: "refs_ok base st1 acc" and abs1: "abs_entries st1 acc = abs_entries st acc" by auto
  have base1: "base \<le> length st1" using Cons.prems(2) len1 by simp
  have tb: "take base st1 = take base st"
    using t1 Cons.prems(2) by (metis min.absorb1 take_take)
  show ?case
  proof (cases r)
    case None
    then have run: "identify_loop_st xs acc st1 = (acc', st')"
      using Cons.prems(3) r by (simp add: x)
    have pure: "identify_loop (x # xs) (abs_entries st acc) = identify_loop xs (abs_entries st1 acc)"
      using cases None by (simp add: x abs1)
    from Cons.IH[OF ok1 base1 run] show ?thesis
      using tb len1 by (simp add: pure)
  next
    case (Some ir)
    let ?acc1 = "AList.update item ir acc"
    from cases Some have im: "identify_item data = Some (abs_entry st1 ir)"
      and ge: "length st \<le> excess_ref ir" "length st \<le> deficit_ref ir"
      and ne: "excess_ref ir \<noteq> deficit_ref ir"
      and am: "is_amounts st1 (excess_ref ir)" "is_amounts st1 (deficit_ref ir)"
      by auto
    have old: "a < length st" if "a \<in> set (refs_of acc)" for a
      using Cons.prems(1) that by (auto simp: refs_ok_def dest: is_amounts_less)
    have fresh: "excess_ref ir \<notin> set (refs_of acc)" "deficit_ref ir \<notin> set (refs_of acc)"
      using old ge by fastforce+
    have d0: "distinct (refs_of acc)" using Cons.prems(1) by (simp add: refs_ok_def)
    from refs_of_update[OF d0 fresh ne, of item] have
      d1: "distinct (refs_of ?acc1)" and
      s1: "set (refs_of ?acc1) \<subseteq> insert (excess_ref ir) (insert (deficit_ref ir) (set (refs_of acc)))"
      by auto
    have "base \<le> a \<and> is_amounts st1 a" if "a \<in> set (refs_of ?acc1)" for a
    proof -
      from that s1 have "a = excess_ref ir \<or> a = deficit_ref ir \<or> a \<in> set (refs_of acc)" by auto
      then show ?thesis
        using am ge Cons.prems(2) ok1 by (auto simp: refs_ok_def)
    qed
    then have ok2: "refs_ok base st1 ?acc1" using d1 by (simp add: refs_ok_def)
    have run: "identify_loop_st xs ?acc1 st1 = (acc', st')"
      using Cons.prems(3) r Some by (simp add: x)
    have pure: "identify_loop (x # xs) (abs_entries st acc) =
        identify_loop xs (abs_entries st1 ?acc1)"
      using im by (simp add: x abs_entries_update abs1)
    from Cons.IH[OF ok2 base1 run] show ?thesis
      using tb len1 by (simp add: pure)
  qed
qed

lemma deficit_loop_st_sim:
  assumes "is_amounts st e" "im_name im = imr_name ir" "im_unit im = imr_unit ir"
    and "deficit_loop_st item ir defs e recs st = (res, st')"
  shows "length st' = length st \<and> (\<forall>b. b \<noteq> e \<longrightarrow> st' ! b = st ! b) \<and> is_amounts st' e \<and>
         deficit_loop item im defs (amounts_at st e) recs =
           (case res of Inl err \<Rightarrow> Inl err | Inr recs' \<Rightarrow> Inr (recs', amounts_at st' e))"
  using assms(1,4)
proof (induction defs arbitrary: st recs)
  case Nil
  then show ?case by auto
next
  case (Cons p defs)
  obtain did da where p: "p = (did, da)" by (cases p)
  let ?ex = "amounts_at st e"
  let ?best = "fst (best_source_loop did ?ex (None, None))"
  show ?case
  proof (cases "?best = None \<or> ?best = Some []")
    case True
    then have "deficit_loop_st item ir defs e recs st = (res, st')"
      using Cons.prems(2) by (auto simp: p)
    from Cons.IH[OF Cons.prems(1) this] show ?thesis
      using True by (auto simp: p)
  next
    case False
    then obtain b where b: "?best = Some b" "b \<noteq> []" by auto
    show ?thesis
    proof (cases "map_of ?ex b")
      case None
      then have "res = Inl KeyError" "st' = st"
        using Cons.prems(2) b by (simp_all add: p)
      then show ?thesis using None b Cons.prems(1) by (simp add: p)
    next
      case (Some a)
      define t where "t = min a da"
      define rec where "rec =
         \<lparr>source_warehouse = b, destination_warehouse = did,
          td_items = [\<lparr>ti_id = item, ti_name = imr_name ir, ti_quantity = of_int t,
                       ti_unit = imr_unit ir\<rparr>],
          td_reason = ''inventory_balancing'', td_priority = 3\<rparr>"
      define st1 where "st1 = dict_set e b (a - t) st"
      have run: "deficit_loop_st item ir defs e (recs @ [rec]) st1 = (res, st')"
        using Cons.prems(2) b Some by (simp add: p Let_def t_def rec_def st1_def)
      have a1: "is_amounts st1 e" using Cons.prems(1) by (simp add: st1_def is_amounts_dict_set)
      have ex1: "amounts_at st1 e = AList.update b (a - t) ?ex"
        using Cons.prems(1) by (simp add: st1_def amounts_at_dict_set_same)
      have pure: "deficit_loop item im (p # defs) ?ex recs =
          deficit_loop item im defs (amounts_at st1 e) (recs @ [rec])"
        using b Some assms(2,3) by (simp add: p Let_def t_def rec_def ex1)
      from Cons.IH[OF a1 run] show ?thesis
        unfolding pure by (simp add: st1_def nth_dict_set_other)
    qed
  qed
qed

lemma refs_ok_tail:
  assumes "refs_ok base st (p # ims)"
  shows "refs_ok base st ims"
    and "excess_ref (snd p) \<notin> set (refs_of ims)"
    and "base \<le> excess_ref (snd p)" and "is_amounts st (excess_ref (snd p))"
  using assms by (auto simp: refs_ok_def refs_of_def)

lemma refs_ok_write:
  assumes "refs_ok base st ims" "e \<notin> set (refs_of ims)"
    "length st' = length st" "\<forall>b. b \<noteq> e \<longrightarrow> st' ! b = st ! b"
  shows "refs_ok base st' ims" and "abs_entries st' ims = abs_entries st ims"
proof -
  have same: "deref st' a = deref st a" if "a \<in> set (refs_of ims)" for a
  proof -
    have "a \<noteq> e" using that assms(2) by auto
    then show ?thesis using assms(3,4) by (simp add: deref_def)
  qed
  then show "refs_ok base st' ims"
    using assms(1) by (auto simp: refs_ok_def is_amounts_def)
  have "abs_entry st' (snd p) = abs_entry st (snd p)" if "p \<in> set ims" for p
  proof -
    have "excess_ref (snd p) \<in> set (refs_of ims)" "deficit_ref (snd p) \<in> set (refs_of ims)"
      using that by (auto simp: refs_of_def)
    then show ?thesis using same by (simp add: abs_entry_def amounts_at_def)
  qed
  then show "abs_entries st' ims = abs_entries st ims"
    by (simp add: abs_entries_def)
qed

lemma balance_loop_st_sim:
  assumes "refs_ok base st ims" "balance_loop_st ims recs st = (res, st')"
  shows "take base st' = take base st \<and> length st' = length st \<and>
         res = balance_loop (abs_entries st ims) recs"
  using assms
proof (induction ims arbitrary: st recs)
  case Nil
  then show ?case by (auto simp: abs_entries_def)
next
  case (Cons p ims)
  obtain item ir where p: "p = (item, ir)" by (cases p)
  let ?e = "excess_ref ir" and ?d = "deficit_ref ir"
  from refs_ok_tail[OF Cons.prems(1)] have
    ok: "refs_ok base st ims" and fresh: "?e \<notin> set (refs_of ims)"
    and ge: "base \<le> ?e" and am: "is_amounts st ?e"
    by (simp_all add: p)
  have absp: "abs_entries st (p # ims) = (item, abs_entry st ir) # abs_entries st ims"
    by (simp add: abs_entries_def p)
  show ?case
  proof (cases "amounts_at st ?e = [] \<or> amounts_at st ?d = []")
    case True
    then have run: "balance_loop_st ims recs st = (res, st')"
      using Cons.prems(2) by (auto simp: p)
    have "balance_loop (abs_entries st (p # ims)) recs = balance_loop (abs_entries st ims) recs"
      using True by (auto simp: absp abs_entry_def)
    then show ?thesis using Cons.IH[OF ok run] by simp
  next
    case False
    obtain res1 st1 where r1:
      "deficit_loop_st item ir (amounts_at st ?d) ?e recs st = (res1, st1)"
      by (cases "deficit_loop_st item ir (amounts_at st ?d) ?e recs st")
    have names: "im_name (abs_entry st ir) = imr_name ir" "im_unit (abs_entry st ir) = imr_unit ir"
      by (simp_all add: abs_entry_def)
    from deficit_loop_st_sim[OF am names r1] have
      len1: "length st1 = length st" and oth1: "\<forall>b. b \<noteq> ?e \<longrightarrow> st1 ! b = st ! b"
      and pure1: "deficit_loop item (abs_entry st ir) (amounts_at st ?d) (amounts_at st ?e) recs =
           (case res1 of Inl err \<Rightarrow> Inl err | Inr recs' \<Rightarrow> Inr (recs', amounts_at st1 ?e))"
      by auto
    have "base \<le> length st" using ge is_amounts_less[OF am] by simp
    then have tk1: "take base st1 = take base st"
      using same_below_take[OF len1, of ?e ?e base] oth1 ge by simp
    have pure: "balance_loop (abs_entries st (p # ims)) recs =
        (case res1 of Inl err \<Rightarrow> Inl err
         | Inr recs' \<Rightarrow> balance_loop (abs_entries st ims) recs')"
      using False pure1 by (cases res1) (auto simp: absp abs_entry_def)
    show ?thesis
    proof (cases res1)
      case (Inl err)
      then have "res = Inl err" "st' = st1"
        using Cons.prems(2) False r1 by (auto simp: p)
      then show ?thesis using pure Inl tk1 len1 by simp
    next
      case (Inr recs1)
      then have run: "balance_loop_st ims recs1 st1 = (res, st')"
        using Cons.prems(2) False r1 by (auto simp: p)
      from refs_ok_write[OF ok fresh len1 oth1] have
        ok1: "refs_ok base st1 ims" and abs1: "abs_entries st1 ims = abs_entries st ims" by auto
      from Cons.IH[OF ok1 run] show ?thesis
        using pure Inr tk1 len1 abs1 by simp
    qed
  qed
qed

lemma balance_inventory_st_sim:
  assumes "balance_inventory_st ws st = (res, st')"
  shows "res = balance_inventory ws \<and> take (length st) st' = st \<and> length st \<le> length st'"
proof -
  obtain ims st1 where i: "identify_inventory_imbalances_st ws st = (ims, st1)"
    by (cases "identify_inventory_imbalances_st ws st")
  have ok0: "refs_ok (length st) st []" by (simp add: refs_ok_def refs_of_def)
  from identify_loop_st_sim[OF ok0 _ i[unfolded identify_inventory_imbalances_st_def]]
  have ok1: "refs_ok (length st) st1 ims" and t1: "take (length st) st1 = st"
    and len1: "length st \<le> length st1"
    and abs1: "abs_entries st1 ims = identify_inventory_imbalances ws"
    by (simp_all add: abs_entries_def identify_inventory_imbalances_def)
  have run: "balance_loop_st ims [] st1 = (res, st')"
    using assms i by (simp add: balance_inventory_st_def)
  from balance_loop_st_sim[OF ok1 run] show ?thesis
    using t1 len1 abs1 by (simp add: balance_inventory_def)
qed

lemma preserved_refl: "preserved st st"
  by (simp add: preserved_def)

lemma preserved_take:
  "take (length st) st' = st \<Longrightarrow> length st \<le> length st' \<Longrightarrow> preserved st st'"
  unfolding preserved_def by (metis nth_take)

lemma preserved_deref: "preserved st st' \<Longrightarrow> deref st a = Some x \<Longrightarrow> deref st' a = Some x"
  by (auto simp: preserved_def deref_def split: if_splits)

lemma read_refs_mono:
  assumes "\<And>a x. rd a = Some x \<Longrightarrow> rd' a = Some x" "read_refs rd refs = Some xs"
  shows "read_refs rd' refs = Some xs"
  using assms(2)
proof (induction refs arbitrary: xs)
  case Nil
  then show ?case by simp
next
  case (Cons p refs)
  obtain k a where p: "p = (k, a)" by (cases p)
  from Cons.prems obtain x ys where x: "rd a = Some x" "read_refs rd refs = Some ys"
    "xs = (k, x) # ys"
    by (auto simp: p split: option.splits)
  from assms(1)[OF x(1)] Cons.IH[OF x(2)] show ?case by (simp add: p x(3))
qed

lemma read_item_preserved:
  "preserved st st' \<Longrightarrow> read_item st a = Some x \<Longrightarrow> read_item st' a = Some x"
  by (auto simp: read_item_def split: option.splits obj.splits dest: preserved_deref)

lemma read_shipment_preserved:
  "preserved st st' \<Longrightarrow> read_shipment st a = Some x \<Longrightarrow> read_shipment st' a = Some x"
  by (auto simp: read_shipment_def split: option.splits obj.splits dest: preserved_deref)

lemma read_route_preserved:
  "preserved st st' \<Longrightarrow> read_route st a = Some x \<Longrightarrow> read_route st' a = Some x"
  by (auto simp: read_route_def split: option.splits obj.splits dest: preserved_deref)

lemma read_warehouse_preserved:
  assumes "preserved st st'" "read_warehouse st a = Some w"
  shows "read_warehouse st' a = Some w"
proof -
  from assms(2) obtain i n l c r refs its where
    o: "deref st a = Some (WarehouseObj i n l c r)" "deref st r = Some (RefDict refs)"
       "read_refs (read_item st) refs = Some its"
       "w = \<lparr>wh_id = i, wh_name = n, wh_location = l, wh_capacity = c, wh_items = its\<rparr>"
    by (auto simp: read_warehouse_def split: option.splits obj.splits)
  have "read_refs (read_item st') refs = Some its"
    using read_item_preserved[OF assms(1)] o(3) by (rule read_refs_mono)
  then show ?thesis
    using preserved_deref[OF assms(1) o(1)] preserved_deref[OF assms(1) o(2)]
    by (simp add: read_warehouse_def o(4))
qed

lemma read_warehouses_preserved:
  assumes "preserved st st'" "read_warehouses st a = Some ws"
  shows "read_warehouses st' a = Some ws"
proof -
  from assms(2) obtain refs where
    o: "deref st a = Some (RefDict refs)" "read_refs (read_warehouse st) refs = Some ws"
    by (auto simp: read_warehouses_def split: option.splits obj.splits)
  have "read_refs (read_warehouse st') refs = Some ws"
    using read_warehouse_preserved[OF assms(1)] o(2) by (rule read_refs_mono)
  then show ?thesis
    using preserved_deref[OF assms(1) o(1)] by (simp add: read_warehouses_def)
qed

lemma read_shipments_preserved:
  assumes "preserved st st'" "read_shipments st a = Some ss"
  shows "read_shipments st' a = Some ss"
proof -
  from assms(2) obtain refs where
    o: "deref st a = Some (RefDict refs)" "read_refs (read_shipment st) refs = Some ss"
    by (auto simp: read_shipments_def split: option.splits obj.splits)
  have "read_refs (read_shipment st') refs = Some ss"
    using read_shipment_preserved[OF assms(1)] o(2) by (rule read_refs_mono)
  then show ?thesis
    using preserved_deref[OF assms(1) o(1)] by (simp add: read_shipments_def)
qed

lemma read_routes_preserved:
  assumes "preserved st st'" "read_routes st a = Some rs"
  shows "read_routes st' a = Some rs"
proof -
  from assms(2) obtain refs where
    o: "deref st a = Some (RefDict refs)" "read_refs (read_route st) refs = Some rs"
    by (auto simp: read_routes_def split: option.splits obj.splits)
  have "read_refs (read_route st') refs = Some rs"
    using read_route_preserved[OF assms(1)] o(2) by (rule read_refs_mono)
  then show ?thesis
    using preserved_deref[OF assms(1) o(1)] by (simp add: read_routes_def)
qed

lemma balance_inventory_obj_preserved:
  "preserved st (snd (balance_inventory_obj wref st))"
proof (cases "read_warehouses st wref")
  case None
  then show ?thesis by (simp add: balance_inventory_obj_def preserved_refl)
next
  case (Some ws)
  obtain res st' where r: "balance_inventory_st ws st = (res, st')"
    by (cases "balance_inventory_st ws st")
  from balance_inventory_st_sim[OF r] have "preserved st st'"
    by (simp add: preserved_take)
  then show ?thesis by (simp add: balance_inventory_obj_def Some r)
qed

lemma balance_inventory_obj_result:
  "read_warehouses st wref = Some ws \<Longrightarrow>
   fst (balance_inventory_obj wref st) = balance_inventory ws"
  using balance_inventory_st_sim[of ws st]
  by (cases "balance_inventory_st ws st") (simp add: balance_inventory_obj_def)

lemma optimize_logistics_obj_preserved:
  "preserved st (snd (optimize_logistics_obj clock wref sref rref st))"
proof -
  obtain res st1 where b: "balance_inventory_obj wref st = (res, st1)"
    by (cases "balance_inventory_obj wref st")
  have p1: "preserved st st1"
    using balance_inventory_obj_preserved[of st wref] by (simp add: b)
  show ?thesis
    using p1 by (auto simp: optimize_logistics_obj_def b Let_def preserved_refl
        split: option.splits sum.splits prod.splits)
qed

lemma optimize_logistics_obj_result:
  assumes "read_warehouses st wref = Some ws" "read_shipments st sref = Some active"
    "read_routes st rref = Some rc"
  shows "fst (optimize_logistics_obj clock wref sref rref st) = optimize_logistics clock ws active rc"
proof -
  obtain res st1 where b: "balance_inventory_obj wref st = (res, st1)"
    by (cases "balance_inventory_obj wref st")
  have p1: "preserved st st1"
    using balance_inventory_obj_preserved[of st wref] by (simp add: b)
  have r1: "res = balance_inventory ws"
    using balance_inventory_obj_result[OF assms(1)] by (simp add: b)
  have s1: "read_shipments st1 sref = Some active"
    using p1 assms(2) by (rule read_shipments_preserved)
  show ?thesis
    by (auto simp: optimize_logistics_obj_def optimize_logistics_def assms b r1 s1 Let_def
        split: option.splits sum.splits prod.splits)
qed

text \<open>
  Claim C8. On a store that holds a snapshot (the three mappings and the objects they
  contain), each entry point leaves every object that the store held before the call as
  it was, so the three mappings read after the call are the ones read before it. The
  balancing writes: its decrement of the remaining excess goes to dictionaries that
  \<^verbatim>\<open>_identify_inventory_imbalances\<close> has created during the call, at addresses past the
  store it was given; and its decisions are those of the balancing on values.
\<close>

theorem engine_preserves_snapshot:
  assumes "read_warehouses st wref = Some ws"
    and "read_shipments st sref = Some active"
    and "read_routes st rref = Some rc"
    and "st' \<in> {snd (evaluate_inventory_replenishment_obj wref alerts st),
               snd (evaluate_shipment_rerouting_obj config clock sref issues rref st),
               snd (balance_inventory_obj wref st),
               snd (optimize_logistics_obj clock' wref sref rref st)}"
  shows "preserved st st' \<and>
         read_warehouses st' wref = Some ws \<and>
         read_shipments st' sref = Some active \<and>
         read_routes st' rref = Some rc \<and>
         fst (balance_inventory_obj wref st) = balance_inventory ws"
proof -
  have "snd (evaluate_inventory_replenishment_obj wref alerts st) = st"
    by (simp add: evaluate_inventory_replenishment_obj_def split: option.splits)
  moreover have "snd (evaluate_shipment_rerouting_obj config clock sref issues rref st) = st"
    by (simp add: evaluate_shipment_rerouting_obj_def split: option.splits)
  ultimately have p: "preserved st st'"
    using assms(4) balance_inventory_obj_preserved[of st wref]
      optimize_logistics_obj_preserved[of st clock' wref sref rref] preserved_refl[of st]
    by auto
  show ?thesis
    using p read_warehouses_preserved[OF p assms(1)] read_shipments_preserved[OF p assms(2)]
      read_routes_preserved[OF p assms(3)] balance_inventory_obj_result[OF assms(1)]
    by simp
qed

text \<open>
  An instance: the scenario of the specification on a store of nine objects. The
  balancing adds the two dictionaries of the item at addresses 9 and 10; B's excess of
  50 is spent there, and the nine objects are as before.
\<close>

theorem engine_preserves_snapshot_witness:
  "read_warehouses (example_store 50 180) 0 =
     Some [scenario_warehouse ''A'' 50 100 200, scenario_warehouse ''B'' 180 100 200] \<and>
   read_shipments (example_store 50 180) 7 = Some [] \<and>
   read_routes (example_store 50 180) 8 = Some [] \<and>
   balance_inventory_obj 0 (example_store 50 180) =
     (Inr [\<lparr>source_warehouse = ''B'', destination_warehouse = ''A'',
            td_items = [\<lparr>ti_id = ''X'', ti_name = ''X'', ti_quantity = 50, ti_unit = ''units''\<rparr>],
            td_reason = ''inventory_balancing'', td_priority = 3\<rparr>],
      example_store 50 180 @ [AmountDict [(''B'', 0)], AmountDict [(''A'', 50)]])"
  using engine_preserves_snapshot [of "example_store 50 180" 0
      "[scenario_warehouse ''A'' 50 100 200, scenario_warehouse ''B'' 180 100 200]" 7 "[]" 8 "[]"
      "snd (balance_inventory_obj 0 (example_store 50 180))"]
  by (simp add: example_store_def read_warehouses_def read_warehouse_def read_item_def
      read_shipments_def read_routes_def deref_def scenario_warehouse_def scenario_item_def
      balance_inventory_obj_def balance_inventory_st_def identify_inventory_imbalances_st_def
      identify_item_st_def alloc_def amounts_at_def dict_set_def ratio_def threshold_range_def
      py_int_def calculate_distance_def distance_matrix_def balance_inventory_def
      identify_inventory_imbalances_def identify_item_def classify_item_def)

text \<open>
  Claim C7. On a store whose warehouse mapping is balanced (for every item held by more
  than one warehouse, the ratio of every warehouse with a positive range is within 0.25
  of the item's mean ratio), the balancing returns the empty list, and run again on the
  store that the first run leaves, it returns the empty list again.
\<close>

theorem balanced_snapshot_twice_empty:
  assumes "read_warehouses st wref = Some ws" and "wf_warehouses ws" and "balanced ws"
  shows "fst (balance_inventory_obj wref st) = Inr [] \<and>
         fst (balance_inventory_obj wref (snd (balance_inventory_obj wref st))) = Inr []"
proof -
  have e: "balance_inventory ws = Inr []"
    using assms(2,3) by (rule balanced_no_decisions)
  let ?st1 = "snd (balance_inventory_obj wref st)"
  have "preserved st ?st1" by (rule balance_inventory_obj_preserved)
  then have "read_warehouses ?st1 wref = Some ws"
    using assms(1) by (rule read_warehouses_preserved)
  then show ?thesis
    using balance_inventory_obj_result[OF assms(1)] balance_inventory_obj_result[of ?st1 wref ws] e
    by simp
qed

text \<open>
  An instance: A holds 130 and B holds 150 of an item with minimum 100 and maximum 200;
  the ratios 0.3 and 0.5 are within 0.25 of their mean 0.4. The first run leaves two empty
  dictionaries behind, and the second run returns the empty list on that store.
\<close>

theorem balanced_snapshot_twice_empty_witness:
  "read_warehouses (example_store 130 150) 0 =
     Some [scenario_warehouse ''A'' 130 100 200, scenario_warehouse ''B'' 150 100 200] \<and>
   wf_warehouses [scenario_warehouse ''A'' 130 100 200, scenario_warehouse ''B'' 150 100 200] \<and>
   balanced [scenario_warehouse ''A'' 130 100 200, scenario_warehouse ''B'' 150 100 200] \<and>
   balance_inventory_obj 0 (example_store 130 150) =
     (Inr [], example_store 130 150 @ [AmountDict [], AmountDict []]) \<and>
   fst (balance_inventory_obj 0 (example_store 130 150 @ [AmountDict [], AmountDict []])) =
     Inr []"
  using balanced_snapshot_twice_empty [of "example_store 130 150" 0
      "[scenario_warehouse ''A'' 130 100 200, scenario_warehouse ''B'' 150 100 200]"]
  by (simp add: example_store_def read_warehouses_def read_warehouse_def read_item_def
      deref_def scenario_warehouse_def scenario_item_def wf_warehouses_def balanced_def
      all_items_def holdings_def level_of_def spec_mean_ratio_def valid_levels_def
      balance_inventory_obj_def balance_inventory_st_def identify_inventory_imbalances_st_def
      identify_item_st_def alloc_def amounts_at_def dict_set_def ratio_def threshold_range_def
      py_int_def balance_inventory_def identify_inventory_imbalances_def identify_item_def
      classify_item_def)

section \<open>Binary floating point: the rounding\<close>

lemma pow2_powi: "pow2 e = 2 powi e"
proof (cases "0 \<le> e")
  case True
  then show ?thesis by (simp add: pow2_def power_int_def)
next
  case False
  then show ?thesis
    by (simp add: pow2_def power_int_def inverse_eq_divide power_one_over)
qed

lemma pow2_pos: "0 < pow2 e"
  by (simp add: pow2_powi zero_less_power_int)

lemma pow2_add: "pow2 (a + b) = pow2 a * pow2 b"
  by (simp add: pow2_powi power_int_add)

lemma pow2_diff: "pow2 (a - b) = pow2 a / pow2 b"
  by (simp add: pow2_powi power_int_diff)

lemma pow2_mono: "a \<le> b \<Longrightarrow> pow2 a \<le> pow2 b"
  by (simp add: pow2_powi power_int_increasing)

lemma pow2_strict_mono: "a < b \<Longrightarrow> pow2 a < pow2 b"
  by (simp add: pow2_powi power_int_strict_increasing)

lemma pow2_le_iff: "pow2 a \<le> pow2 b \<longleftrightarrow> a \<le> b"
  using pow2_mono[of a b] pow2_strict_mono[of b a] by (auto simp: not_le[symmetric])

lemma pow2_nat: "0 \<le> e \<Longrightarrow> pow2 e = of_int (2 ^ nat e)"
  by (simp add: pow2_def)

lemma bit_length_bounds:
  "0 < n \<Longrightarrow> 1 \<le> bit_length n \<and> 2 ^ nat (bit_length n - 1) \<le> n \<and> n < 2 ^ nat (bit_length n)"
proof (induction n rule: bit_length.induct)
  case (1 n)
  have bl: "bit_length n = bit_length (n div 2) + 1"
    using "1.prems" by (subst bit_length.simps) simp
  show ?case
  proof (cases "n div 2 = 0")
    case True
    then have n1: "n = 1" using "1.prems" by presburger
    have "bit_length (0::int) = 0" by (subst bit_length.simps) simp
    then have "bit_length n = 1" using bl True by simp
    then show ?thesis by (simp add: n1)
  next
    case False
    then have pos: "0 < n div 2" using "1.prems" by presburger
    have nle: "\<not> n \<le> 0" using "1.prems" by simp
    from "1.IH"[OF nle pos] have
      b1: "1 \<le> bit_length (n div 2)" and
      lo: "2 ^ nat (bit_length (n div 2) - 1) \<le> n div 2" and
      hi: "n div 2 < 2 ^ nat (bit_length (n div 2))" by auto
    let ?b = "bit_length (n div 2)"
    have e1: "nat (?b + 1 - 1) = Suc (nat (?b - 1))" using b1 by simp
    have e2: "nat (?b + 1) = Suc (nat ?b)" using b1 by simp
    have "nat ?b = Suc (nat (?b - 1))" using b1 by simp
    then have e3: "(2::int) ^ nat ?b = 2 * 2 ^ nat (?b - 1)" by simp
    have "2 * 2 ^ nat (?b - 1) \<le> n" using lo by presburger
    moreover have "n < 2 * 2 ^ nat ?b" using hi by presburger
    ultimately show ?thesis using b1 e3 by (simp add: bl e1 e2)
  qed
qed

lemma exponent_le:
  assumes "x \<noteq> 0"
  shows "pow2 (exponent x) \<le> \<bar>x\<bar>"
proof -
  obtain p q where pq: "quotient_of \<bar>x\<bar> = (p, q)" by (cases "quotient_of \<bar>x\<bar>")
  have q: "0 < q" using pq by (rule quotient_of_denom_pos)
  have x: "\<bar>x\<bar> = of_int p / of_int q" using pq by (rule quotient_of_div)
  have p: "0 < p"
  proof -
    have "0 < \<bar>x\<bar>" using assms by simp
    then have "0 < (of_int p :: rat) / of_int q" by (simp only: x)
    then show ?thesis using q by (simp add: zero_less_divide_iff)
  qed
  let ?e = "bit_length p - bit_length q"
  show ?thesis
  proof (cases "pow2 ?e \<le> \<bar>x\<bar>")
    case True
    then show ?thesis by (simp add: exponent_def pq)
  next
    case False
    then have ex: "exponent x = ?e - 1" by (simp add: exponent_def pq)
    from bit_length_bounds[OF p] have bp: "1 \<le> bit_length p"
      and plo: "2 ^ nat (bit_length p - 1) \<le> p" by auto
    from bit_length_bounds[OF q] have bq: "1 \<le> bit_length q"
      and qhi: "q < 2 ^ nat (bit_length q)" by auto
    have "pow2 (bit_length p - 1) = of_int (2 ^ nat (bit_length p - 1))"
      using bp by (intro pow2_nat) simp
    also have "\<dots> \<le> of_int p" using plo by (simp only: of_int_le_iff)
    finally have a: "pow2 (bit_length p - 1) \<le> of_int p" .
    have "(of_int q :: rat) \<le> of_int (2 ^ nat (bit_length q))"
      using qhi by (simp only: of_int_le_iff)
    also have "\<dots> = pow2 (bit_length q)"
      using bq by (intro pow2_nat [symmetric]) simp
    finally have b: "of_int q \<le> pow2 (bit_length q)" .
    have "pow2 (?e - 1) = pow2 (bit_length p - 1) / pow2 (bit_length q)"
      by (simp add: pow2_diff [symmetric] algebra_simps)
    also have "\<dots> \<le> of_int p / of_int q"
      using a b q pow2_pos[of "bit_length p - 1"] by (intro frac_le) simp_all
    finally show ?thesis by (simp add: ex x)
  qed
qed

lemma round_half_even_bounds: "\<lfloor>z\<rfloor> \<le> round_half_even z \<and> round_half_even z \<le> \<lceil>z\<rceil>"
proof -
  have "\<lceil>z\<rceil> = \<lfloor>z\<rfloor> + 1" if "0 < z - of_int \<lfloor>z\<rfloor>"
    using that by (simp add: ceiling_altdef)
  then show ?thesis
    by (auto simp: round_half_even_def Let_def ceiling_altdef)
qed

lemma round_half_even_abs_le:
  assumes "\<bar>z\<bar> \<le> of_int m"
  shows "\<bar>round_half_even z\<bar> \<le> m"
proof -
  have "z \<le> of_int m" "of_int (- m) \<le> z" using assms by auto
  then have "\<lceil>z\<rceil> \<le> m" "- m \<le> \<lfloor>z\<rfloor>" by (simp_all add: ceiling_le le_floor_iff)
  then show ?thesis using round_half_even_bounds[of z] by linarith
qed

lemma round_half_even_of_int: "round_half_even (of_int k) = k"
  by (simp add: round_half_even_def)

lemma round_binary64_bound:
  assumes "\<bar>x\<bar> \<le> pow2 k" "- 1022 \<le> k" "k \<le> 1023"
  shows "\<exists>y. round_binary64 x = Finite y \<and> \<bar>y\<bar> \<le> pow2 k"
proof (cases "x = 0")
  case True
  then show ?thesis using pow2_pos[of k] by (simp add: round_binary64_def)
next
  case False
  define c where "c = max (exponent x) (- 1022)"
  define u where "u = pow2 (c - 52)"
  define n where "n = round_half_even (x / u)"
  define y where "y = of_int n * u"
  have u: "0 < u" by (simp add: u_def pow2_pos)
  have "pow2 (exponent x) \<le> pow2 k" using exponent_le[OF False] assms(1) by simp
  then have "exponent x \<le> k" by (simp add: pow2_le_iff)
  then have ck: "c \<le> k" using assms(2) by (simp add: c_def)
  define M :: int where "M = 2 ^ nat (k - c + 52)"
  have M: "of_int M = pow2 (k - c + 52)" using ck by (simp add: M_def pow2_nat)
  have Mu: "of_int M * u = pow2 k"
    by (simp add: M u_def pow2_add [symmetric])
  have "\<bar>x / u\<bar> = \<bar>x\<bar> / u" using u by simp
  also have "\<dots> \<le> pow2 k / u" using assms(1) u by (simp add: divide_right_mono)
  also have "\<dots> = of_int M" using u Mu by (simp add: field_simps)
  finally have "\<bar>n\<bar> \<le> M" unfolding n_def by (rule round_half_even_abs_le)
  then have "\<bar>of_int n :: rat\<bar> \<le> of_int M"
    by (metis of_int_abs of_int_le_iff)
  then have "\<bar>y\<bar> \<le> of_int M * u"
    using u by (simp add: y_def abs_mult mult_right_mono)
  then have yk: "\<bar>y\<bar> \<le> pow2 k" by (simp add: Mu)
  have "pow2 k < pow2 1024" using assms(3) by (intro pow2_strict_mono) simp
  with yk have "\<not> pow2 1024 \<le> y" "\<not> y \<le> - pow2 1024" by auto
  then have "round_binary64 x = Finite y"
    using False by (simp add: round_binary64_def Let_def c_def u_def n_def y_def)
  with yk show ?thesis by blast
qed

lemma round_binary64_int:
  assumes "\<bar>n\<bar> < 2 ^ 53"
  shows "round_binary64 (of_int n) = Finite (of_int n)"
proof (cases "n = 0")
  case True
  then show ?thesis by (simp add: round_binary64_def)
next
  case False
  let ?x = "of_int n :: rat"
  have x0: "?x \<noteq> 0" using False by simp
  define c where "c = max (exponent ?x) (- 1022)"
  define u where "u = pow2 (c - 52)"
  have u: "0 < u" by (simp add: u_def pow2_pos)
  have "\<bar>?x\<bar> < of_int (2 ^ 53)" using assms by (metis of_int_abs of_int_less_iff)
  also have "\<dots> = pow2 53" by (simp add: pow2_def)
  finally have lt: "\<bar>?x\<bar> < pow2 53" .
  with exponent_le[OF x0] have "pow2 (exponent ?x) < pow2 53" by simp
  then have "exponent ?x < 53"
    using pow2_mono[of 53 "exponent ?x"] by (auto simp: not_le[symmetric])
  then have c: "c \<le> 52" by (simp add: c_def)
  define m :: int where "m = n * 2 ^ nat (52 - c)"
  have "1 / u = pow2 (52 - c)"
    using pow2_diff[of 0 "c - 52"] by (simp add: u_def pow2_def)
  also have "\<dots> = of_int (2 ^ nat (52 - c))" using c by (simp add: pow2_nat)
  finally have iu: "1 / u = of_int (2 ^ nat (52 - c))" .
  have "?x / u = ?x * (1 / u)" by simp
  also have "\<dots> = of_int m" by (simp only: iu m_def of_int_mult)
  finally have xu: "?x / u = of_int m" .
  have y: "of_int (round_half_even (?x / u)) * u = ?x"
    using u xu by (simp add: round_half_even_of_int field_simps)
  have "pow2 53 < pow2 1024" by (intro pow2_strict_mono) simp
  with lt have "\<not> pow2 1024 \<le> ?x" "\<not> ?x \<le> - pow2 1024" by auto
  then show ?thesis
    using x0 y by (simp add: round_binary64_def Let_def c_def u_def del: of_int_eq_0_iff)
qed

lemma round_binary64_unbounded:
  "round_binary64 x =
    (if pow2 1024 \<le> round_unbounded x then PlusInf
     else if round_unbounded x \<le> - pow2 1024 then MinusInf
     else Finite (round_unbounded x))"
  using pow2_pos[of 1024]
  by (simp add: round_binary64_def round_unbounded_def Let_def not_le)

lemma exponent_less:
  assumes "x \<noteq> 0"
  shows "\<bar>x\<bar> < pow2 (exponent x + 1)"
proof -
  obtain p q where pq: "quotient_of \<bar>x\<bar> = (p, q)" by (cases "quotient_of \<bar>x\<bar>")
  have q: "0 < q" using pq by (rule quotient_of_denom_pos)
  have x: "\<bar>x\<bar> = of_int p / of_int q" using pq by (rule quotient_of_div)
  have p: "0 < p"
  proof -
    have "0 < \<bar>x\<bar>" using assms by simp
    then have "0 < (of_int p :: rat) / of_int q" by (simp only: x)
    then show ?thesis using q by (simp add: zero_less_divide_iff)
  qed
  let ?e = "bit_length p - bit_length q"
  show ?thesis
  proof (cases "pow2 ?e \<le> \<bar>x\<bar>")
    case False
    then show ?thesis by (simp add: exponent_def pq)
  next
    case True
    then have ex: "exponent x = ?e" by (simp add: exponent_def pq)
    from bit_length_bounds[OF p] have bp: "1 \<le> bit_length p"
      and phi: "p < 2 ^ nat (bit_length p)" by auto
    from bit_length_bounds[OF q] have bq: "1 \<le> bit_length q"
      and qlo: "2 ^ nat (bit_length q - 1) \<le> q" by auto
    have "(of_int p :: rat) < of_int (2 ^ nat (bit_length p))"
      using phi by (simp only: of_int_less_iff)
    also have "\<dots> = pow2 (bit_length p)"
      using bp by (intro pow2_nat [symmetric]) simp
    finally have a: "of_int p < pow2 (bit_length p)" .
    have "pow2 (bit_length q - 1) = of_int (2 ^ nat (bit_length q - 1))"
      using bq by (intro pow2_nat) simp
    also have "\<dots> \<le> of_int q" using qlo by (simp only: of_int_le_iff)
    finally have b: "pow2 (bit_length q - 1) \<le> of_int q" .
    have "of_int p / of_int q < pow2 (bit_length p) / pow2 (bit_length q - 1)"
      using a b p q pow2_pos[of "bit_length q - 1"]
      by (intro frac_less) simp_all
    also have "\<dots> = pow2 (?e + 1)"
      by (simp add: pow2_diff [symmetric] algebra_simps)
    finally show ?thesis by (simp add: ex x)
  qed
qed

lemma exponent_minus: "exponent (- x) = exponent x"
  by (simp add: exponent_def)

lemma round_half_even_minus: "round_half_even (- z) = - round_half_even z"
proof (cases "z = of_int \<lfloor>z\<rfloor>")
  case True
  then obtain k where "z = of_int k" ..
  then show ?thesis
    using round_half_even_of_int[of k] round_half_even_of_int[of "- k"] by simp
next
  case False
  then have fl: "\<lfloor>- z\<rfloor> = - \<lfloor>z\<rfloor> - 1"
    by (metis ceiling_altdef ceiling_def minus_diff_eq diff_minus_eq_add add.commute
        uminus_add_conv_diff minus_minus)
  have f: "0 < z - of_int \<lfloor>z\<rfloor>" "z - of_int \<lfloor>z\<rfloor> < 1"
    using False by (auto simp: less_le) linarith+
  show ?thesis
    using f by (auto simp: round_half_even_def Let_def fl)
qed

lemma round_unbounded_minus: "round_unbounded (- x) = - round_unbounded x"
  by (simp add: round_unbounded_def exponent_minus round_half_even_minus Let_def)

lemma round_half_even_mono:
  assumes "z \<le> w"
  shows "round_half_even z \<le> round_half_even w"
proof (cases "\<lfloor>z\<rfloor> = \<lfloor>w\<rfloor>")
  case True
  then show ?thesis
    using assms by (auto simp: round_half_even_def Let_def)
next
  case False
  have "\<lfloor>z\<rfloor> \<le> \<lfloor>w\<rfloor>" using assms by (rule floor_mono)
  with False have "\<lfloor>z\<rfloor> + 1 \<le> \<lfloor>w\<rfloor>" by simp
  moreover have "round_half_even z \<le> \<lfloor>z\<rfloor> + 1"
    by (auto simp: round_half_even_def Let_def)
  moreover have "\<lfloor>w\<rfloor> \<le> round_half_even w"
    using round_half_even_bounds[of w] by simp
  ultimately show ?thesis by linarith
qed

lemma round_unbounded_pos_bounds:
  assumes "0 < x"
  defines "c \<equiv> max (exponent x) (- 1022)"
  shows "0 \<le> round_unbounded x" "round_unbounded x \<le> pow2 (c + 1)"
    "- 1022 \<le> exponent x \<Longrightarrow> pow2 c \<le> round_unbounded x"
proof -
  define u where "u = pow2 (c - 52)"
  have u: "0 < u" by (simp add: u_def pow2_pos)
  have x0: "x \<noteq> 0" using assms(1) by simp
  have R: "round_unbounded x = of_int (round_half_even (x / u)) * u"
    using x0 by (simp add: round_unbounded_def Let_def u_def c_def)
  have "0 \<le> x / u" using assms(1) u by simp
  then have "0 \<le> \<lfloor>x / u\<rfloor>" by simp
  then have "0 \<le> round_half_even (x / u)"
    using round_half_even_bounds[of "x / u"] by linarith
  then show "0 \<le> round_unbounded x" using u by (simp add: R)
  have "x < pow2 (exponent x + 1)" using exponent_less[OF x0] assms(1) by simp
  also have "\<dots> \<le> pow2 (c + 1)" by (intro pow2_mono) (simp add: c_def)
  finally have "x / u < pow2 (c + 1) / u" using u by (simp add: divide_strict_right_mono)
  also have "pow2 (c + 1) / u = pow2 53"
    using pow2_diff[of "c + 1" "c - 52"] by (simp add: u_def)
  also have "\<dots> = of_int (2 ^ 53)" by (simp add: pow2_def)
  finally have "x / u \<le> of_int (2 ^ 53)" by simp
  then have "\<lceil>x / u\<rceil> \<le> 2 ^ 53" by (simp only: ceiling_le)
  then have "round_half_even (x / u) \<le> 2 ^ 53"
    using round_half_even_bounds[of "x / u"] by linarith
  then have "(of_int (round_half_even (x / u)) :: rat) \<le> of_int (2 ^ 53)"
    by (simp only: of_int_le_iff)
  then have "round_unbounded x \<le> of_int (2 ^ 53) * u"
    unfolding R using u by (intro mult_right_mono) simp_all
  also have "of_int (2 ^ 53) * u = pow2 53 * pow2 (c - 52)" by (simp add: pow2_def u_def)
  also have "\<dots> = pow2 (c + 1)" by (simp add: pow2_add [symmetric] add.commute)
  finally show "round_unbounded x \<le> pow2 (c + 1)" .
  show "pow2 c \<le> round_unbounded x" if "- 1022 \<le> exponent x"
  proof -
    have ce: "c = exponent x" using that by (simp add: c_def)
    have "pow2 c \<le> x" using exponent_le[OF x0] assms(1) by (simp add: ce)
    then have "pow2 c / u \<le> x / u" using u by (simp add: divide_right_mono)
    moreover have "pow2 c / u = pow2 52"
      using pow2_diff[of c "c - 52"] by (simp add: u_def)
    moreover have "pow2 52 = of_int (2 ^ 52)" by (simp add: pow2_def)
    ultimately have "of_int (2 ^ 52) \<le> x / u" by simp
    then have "2 ^ 52 \<le> \<lfloor>x / u\<rfloor>" by (simp only: le_floor_iff)
    then have "2 ^ 52 \<le> round_half_even (x / u)"
      using round_half_even_bounds[of "x / u"] by linarith
    then have "(of_int (2 ^ 52) :: rat) \<le> of_int (round_half_even (x / u))"
      by (simp only: of_int_le_iff)
    then have "of_int (2 ^ 52) * u \<le> round_unbounded x"
      unfolding R using u by (intro mult_right_mono) simp_all
    moreover have "of_int (2 ^ 52) * u = pow2 52 * pow2 (c - 52)" by (simp add: pow2_def u_def)
    moreover have "pow2 52 * pow2 (c - 52) = pow2 c" by (simp add: pow2_add [symmetric])
    ultimately show ?thesis by simp
  qed
qed

lemma round_unbounded_mono_pos:
  assumes "0 < x" "x \<le> y"
  shows "round_unbounded x \<le> round_unbounded y"
proof -
  have y0: "0 < y" using assms by simp
  define cx where "cx = max (exponent x) (- 1022)"
  define cy where "cy = max (exponent y) (- 1022)"
  have "pow2 (exponent x) \<le> x" using exponent_le[of x] assms(1) by simp
  also have "x \<le> y" by fact
  also have "y < pow2 (exponent y + 1)" using exponent_less[of y] y0 by simp
  finally have "exponent x < exponent y + 1"
    using pow2_mono[of "exponent y + 1" "exponent x"] by (auto simp: not_le[symmetric])
  then have ee: "exponent x \<le> exponent y" by simp
  then have cc: "cx \<le> cy" by (simp add: cx_def cy_def)
  show ?thesis
  proof (cases "cx = cy")
    case True
    define u where "u = pow2 (cx - 52)"
    have u: "0 < u" by (simp add: u_def pow2_pos)
    have "x / u \<le> y / u" using assms(2) u by (simp add: divide_right_mono)
    then have "round_half_even (x / u) \<le> round_half_even (y / u)"
      by (rule round_half_even_mono)
    then have "(of_int (round_half_even (x / u)) :: rat) \<le> of_int (round_half_even (y / u))"
      by (simp only: of_int_le_iff)
    then have "of_int (round_half_even (x / u)) * u \<le> of_int (round_half_even (y / u)) * u"
      using u by (intro mult_right_mono) simp_all
    then show ?thesis
      using assms(1) y0 True
      by (simp add: round_unbounded_def Let_def u_def cx_def cy_def)
  next
    case False
    with cc have lt: "cx < cy" by simp
    then have ey: "- 1022 \<le> exponent y" "cy = exponent y"
      by (auto simp: cx_def cy_def)
    have "round_unbounded x \<le> pow2 (cx + 1)"
      using round_unbounded_pos_bounds(2)[OF assms(1)] by (simp add: cx_def)
    also have "\<dots> \<le> pow2 cy" using lt by (intro pow2_mono) simp
    also have "\<dots> \<le> round_unbounded y"
      using round_unbounded_pos_bounds(3)[OF y0 ey(1)] by (simp add: cy_def)
    finally show ?thesis .
  qed
qed

lemma round_unbounded_mono:
  assumes "x \<le> y"
  shows "round_unbounded x \<le> round_unbounded y"
proof -
  have neg: "round_unbounded z \<le> 0" if "z < 0" for z
    using round_unbounded_pos_bounds(1)[of "- z"] that by (simp add: round_unbounded_minus)
  have zero: "round_unbounded 0 = 0" by (simp add: round_unbounded_def)
  consider "0 < x" | "y < 0" | "x \<le> 0" "0 \<le> y" using assms by linarith
  then show ?thesis
  proof cases
    case 1
    then show ?thesis using assms by (rule round_unbounded_mono_pos)
  next
    case 2
    then have "0 < - y" "- y \<le> - x" using assms by simp_all
    from round_unbounded_mono_pos[OF this] show ?thesis
      by (simp add: round_unbounded_minus)
  next
    case 3
    have "round_unbounded x \<le> 0"
      using 3(1) neg[of x] zero by (cases "x = 0") auto
    moreover have "0 \<le> round_unbounded y"
      using 3(2) round_unbounded_pos_bounds(1)[of y] zero by (cases "y = 0") auto
    ultimately show ?thesis by simp
  qed
qed

lemma round_binary64_mono:
  assumes "x \<le> y"
  shows "\<not> float_lt (round_binary64 y) (round_binary64 x)"
  using round_unbounded_mono[OF assms] pow2_pos[of 1024]
  by (auto simp: round_binary64_unbounded)

lemma float_lt_trans: "float_lt a b \<Longrightarrow> float_lt b c \<Longrightarrow> float_lt a c"
  by (cases a; cases b; cases c) auto

lemma float_lt_irrefl: "\<not> float_lt a a"
  by (cases a) auto

lemma not_float_lt_trans:
  "float_lt a b \<Longrightarrow> \<not> float_lt c b \<Longrightarrow> c \<noteq> NaN \<Longrightarrow> float_lt a c"
  by (cases a; cases b; cases c) auto

lemma round_binary64_not_NaN: "round_binary64 x \<noteq> NaN"
  by (simp add: round_binary64_unbounded)

text \<open>The two tests of the classification exclude each other.\<close>

lemma tests_exclusive:
  assumes "float_lt r (float_sub avg literal_0_25)"
  shows "\<not> float_gt r (float_add avg literal_0_25)"
proof (cases avg)
  case (Finite a)
  have 1: "\<not> float_lt (round_binary64 (a + 1 / 4)) (round_binary64 (a - 1 / 4))"
    by (rule round_binary64_mono) simp
  have 2: "float_lt r (round_binary64 (a - 1 / 4))"
    using assms by (simp add: Finite float_sub_def literal_0_25_def)
  have "float_lt r (round_binary64 (a + 1 / 4))"
    by (rule not_float_lt_trans[OF 2 1 round_binary64_not_NaN])
  then have "\<not> float_lt (round_binary64 (a + 1 / 4)) r"
    using float_lt_trans float_lt_irrefl by blast
  then show ?thesis by (simp add: Finite float_gt_def literal_0_25_def)
next
  case PlusInf
  then show ?thesis by (cases r) (simp_all add: float_gt_def literal_0_25_def)
next
  case MinusInf
  then show ?thesis using assms by (cases r) (simp_all add: float_sub_def literal_0_25_def)
next
  case NaN
  then show ?thesis by (cases r) (simp_all add: float_gt_def literal_0_25_def)
qed

subsection \<open>Bounds and special values of the operations\<close>

lemma float_withinE:
  assumes "float_within k a"
  obtains y where "a = Finite y" "\<bar>y\<bar> \<le> pow2 k"
  using assms by (cases a) (auto simp: float_within_def)

lemma float_within_Finite [simp]: "float_within k (Finite y) \<longleftrightarrow> \<bar>y\<bar> \<le> pow2 k"
  by (simp add: float_within_def)

lemma float_within_mono: "float_within j a \<Longrightarrow> j \<le> k \<Longrightarrow> float_within k a"
  using pow2_mono[of j k] by (cases a) (auto simp: float_within_def)

lemma round_binary64_within:
  assumes "\<bar>x\<bar> \<le> pow2 k" "- 1022 \<le> k" "k \<le> 1023"
  shows "float_within k (round_binary64 x)"
  using round_binary64_bound[OF assms] by auto

lemma pow2_int: "0 \<le> k \<Longrightarrow> \<bar>n\<bar> \<le> 2 ^ nat k \<Longrightarrow> \<bar>of_int n :: rat\<bar> \<le> pow2 k"
proof -
  assume k: "0 \<le> k" and n: "\<bar>n\<bar> \<le> 2 ^ nat k"
  have "\<bar>of_int n :: rat\<bar> = of_int \<bar>n\<bar>" by simp
  also have "\<dots> \<le> of_int (2 ^ nat k)" using n by (simp only: of_int_le_iff)
  also have "\<dots> = pow2 k" using k by (rule pow2_nat [symmetric])
  finally show ?thesis .
qed

lemma float_of_int_within:
  assumes "\<bar>n\<bar> \<le> 2 ^ nat k" "0 \<le> k" "k \<le> 1023"
  shows "\<exists>r. float_of_int n = Inr r \<and> float_within k r"
proof -
  have "\<bar>of_int n :: rat\<bar> \<le> pow2 k" using assms(2,1) by (rule pow2_int)
  from round_binary64_bound[OF this] assms(2,3) obtain y where
    "round_binary64 (of_int n) = Finite y" "\<bar>y\<bar> \<le> pow2 k" by auto
  then show ?thesis by (simp add: float_of_int_def)
qed

lemma int_truediv_within:
  assumes "\<bar>a\<bar> \<le> 2 ^ nat k" "0 < b" "0 \<le> k" "k \<le> 1023"
  shows "\<exists>r. int_truediv a b = Inr r \<and> float_within k r"
proof -
  have b1: "(1::rat) \<le> of_int b" using assms(2) by simp
  have "\<bar>of_int a / of_int b :: rat\<bar> = \<bar>of_int a\<bar> / of_int b" using assms(2) by simp
  also have "\<dots> \<le> \<bar>of_int a\<bar> / 1" using b1 by (intro divide_left_mono) simp_all
  also have "\<dots> \<le> pow2 k" using pow2_int[OF assms(3,1)] by simp
  finally have "\<bar>of_int a / of_int b :: rat\<bar> \<le> pow2 k" .
  from round_binary64_bound[OF this] assms(3,4) obtain y where
    "round_binary64 (of_int a / of_int b) = Finite y" "\<bar>y\<bar> \<le> pow2 k" by auto
  then show ?thesis using assms(2) by (simp add: int_truediv_def)
qed

lemma pow2_Suc: "pow2 (k + 1) = 2 * pow2 k"
  using pow2_add[of k 1] by (simp add: pow2_def[of 1])

lemma float_add_within:
  assumes "float_within k a" "float_within k b" "- 1023 \<le> k" "k \<le> 1022"
  shows "float_within (k + 1) (float_add a b)"
proof -
  from assms(1) obtain x where a: "a = Finite x" and x: "\<bar>x\<bar> \<le> pow2 k" by (rule float_withinE)
  from assms(2) obtain y where b: "b = Finite y" and y: "\<bar>y\<bar> \<le> pow2 k" by (rule float_withinE)
  have "\<bar>x + y\<bar> \<le> pow2 (k + 1)" using x y by (simp add: pow2_Suc)
  then have "float_within (k + 1) (round_binary64 (x + y))"
    by (rule round_binary64_within) (use assms(3,4) in simp_all)
  then show ?thesis by (simp add: a b)
qed

lemma float_neg_within: "float_within k a \<Longrightarrow> float_within k (float_neg a)"
  by (cases a) (auto simp: float_within_def)

lemma float_sub_within:
  assumes "float_within k a" "float_within k b" "- 1023 \<le> k" "k \<le> 1022"
  shows "float_within (k + 1) (float_sub a b)"
  unfolding float_sub_def
  by (rule float_add_within[OF assms(1) float_neg_within[OF assms(2)] assms(3,4)])

lemma float_mul_within:
  assumes "float_within j a" "float_within k b" "- 1022 \<le> j + k" "j + k \<le> 1023"
  shows "float_within (j + k) (float_mul a b)"
proof -
  from assms(1) obtain x where a: "a = Finite x" and x: "\<bar>x\<bar> \<le> pow2 j" by (rule float_withinE)
  from assms(2) obtain y where b: "b = Finite y" and y: "\<bar>y\<bar> \<le> pow2 k" by (rule float_withinE)
  have "\<bar>x * y\<bar> = \<bar>x\<bar> * \<bar>y\<bar>" by (rule abs_mult)
  also have "\<dots> \<le> pow2 j * pow2 k" using x y by (intro mult_mono) simp_all
  finally have "\<bar>x * y\<bar> \<le> pow2 (j + k)" by (simp add: pow2_add)
  then have "float_within (j + k) (round_binary64 (x * y))"
    using assms(3,4) by (rule round_binary64_within)
  then show ?thesis by (simp add: a b)
qed

lemma float_truediv_int_within:
  assumes "float_within k a" "1 \<le> n" "n < 2 ^ 53" "- 1022 \<le> k" "k \<le> 1023"
  shows "\<exists>r. float_truediv_int a n = Inr r \<and> float_within k r"
proof -
  from assms(1) obtain x where a: "a = Finite x" and x: "\<bar>x\<bar> \<le> pow2 k" by (rule float_withinE)
  have "\<bar>n\<bar> < 2 ^ 53" using assms(2,3) by simp
  then have n: "float_of_int n = Inr (Finite (of_int n))"
    by (simp add: float_of_int_def round_binary64_int)
  have n1: "(1::rat) \<le> of_int n" using assms(2) by simp
  have "\<bar>x / of_int n\<bar> = \<bar>x\<bar> / of_int n" using assms(2) by simp
  also have "\<dots> \<le> \<bar>x\<bar> / 1" using n1 by (intro divide_left_mono) simp_all
  also have "\<dots> \<le> pow2 k" using x by simp
  finally have "float_within k (round_binary64 (x / of_int n))"
    using assms(4,5) by (rule round_binary64_within)
  then show ?thesis using assms(2) by (simp add: float_truediv_int_def n a)
qed

lemma literal_0_25_within: "float_within 0 literal_0_25"
  by (simp add: literal_0_25_def pow2_def)

lemma literal_0_15_within: "float_within 0 literal_0_15"
  unfolding literal_0_15_def by (rule round_binary64_within) (simp_all add: pow2_def)

lemma int_of_float_within: "float_within k a \<Longrightarrow> \<exists>n. int_of_float a = Inr n"
  by (cases a) (auto simp: float_within_def)

lemma float_of_int_pos:
  assumes "0 < n"
  shows "float_of_int n = Inl OverflowError \<or> (\<exists>m. float_of_int n = Inr (Finite m) \<and> 0 < m)"
proof -
  let ?x = "of_int n :: rat"
  have x: "0 < ?x" using assms by simp
  then have x0: "?x \<noteq> 0" by simp
  have "(1::rat) \<le> \<bar>?x\<bar>" using assms by simp
  also have "\<bar>?x\<bar> < pow2 (exponent ?x + 1)" by (rule exponent_less[OF x0])
  finally have "pow2 0 < pow2 (exponent ?x + 1)" by (simp add: pow2_def)
  then have "0 < exponent ?x + 1"
    using pow2_mono[of "exponent ?x + 1" 0] by (auto simp: not_le[symmetric])
  then have e: "- 1022 \<le> exponent ?x" by simp
  have "0 < pow2 (max (exponent ?x) (- 1022))" by (rule pow2_pos)
  also have "\<dots> \<le> round_unbounded ?x" by (rule round_unbounded_pos_bounds(3)[OF x e])
  finally have "0 < round_unbounded ?x" .
  then show ?thesis
    by (simp add: float_of_int_def round_binary64_unbounded)
qed

lemma int_truediv_cases:
  assumes "0 < b"
  shows "int_truediv a b = Inl OverflowError \<or> (\<exists>x. int_truediv a b = Inr (Finite x))"
  using assms by (simp add: int_truediv_def round_binary64_unbounded)

lemma float_add_Finite_not_NaN: "a \<noteq> NaN \<Longrightarrow> float_add a (Finite x) \<noteq> NaN"
  by (cases a) (simp_all add: round_binary64_not_NaN)

lemma float_sub_Finite_not_NaN: "a \<noteq> NaN \<Longrightarrow> float_sub a (Finite x) \<noteq> NaN"
  by (simp add: float_sub_def float_add_Finite_not_NaN)

lemma Finite_float_sub_not_NaN: "b \<noteq> NaN \<Longrightarrow> float_sub (Finite x) b \<noteq> NaN"
  by (cases b) (simp_all add: float_sub_def round_binary64_not_NaN)

lemma float_mul_pos_not_NaN: "a \<noteq> NaN \<Longrightarrow> 0 < m \<Longrightarrow> float_mul a (Finite m) \<noteq> NaN"
  by (cases a) (simp_all add: round_binary64_not_NaN)

lemma float_truediv_pos:
  assumes "a \<noteq> NaN" "0 < m"
  shows "\<exists>b. float_truediv a (Finite m) = Inr b \<and> b \<noteq> NaN"
  using assms by (cases a) (simp_all add: round_binary64_not_NaN)

lemma literal_0_15_Finite: "\<exists>x. literal_0_15 = Finite x"
  using literal_0_15_within by (cases literal_0_15) (auto simp: float_within_def)

lemma int_of_float_error: "a \<noteq> NaN \<Longrightarrow> int_of_float a = Inl e \<Longrightarrow> e = OverflowError"
  by (cases a) auto

lemma float_mul_int_cases:
  assumes "a \<noteq> NaN" "0 < n"
  shows "float_mul_int a n = Inl OverflowError \<or>
         (\<exists>b. float_mul_int a n = Inr b \<and> b \<noteq> NaN)"
  using float_of_int_pos[OF assms(2)] assms(1)
  by (auto simp: float_mul_int_def float_mul_pos_not_NaN)

lemma float_truediv_int_cases:
  assumes "a \<noteq> NaN" "0 < n"
  shows "float_truediv_int a n = Inl OverflowError \<or>
         (\<exists>b. float_truediv_int a n = Inr b \<and> b \<noteq> NaN)"
  using float_of_int_pos[OF assms(2)] float_truediv_pos[OF assms(1)]
  by (auto simp: float_truediv_int_def)

section \<open>Balancing: the classification in float arithmetic\<close>

lemma ratios_b64_length: "ratios_b64 levels = Inr rs \<Longrightarrow> length rs = length levels"
  by (induction levels arbitrary: rs) (auto split: sum.splits)

lemma ratio_loop_b64_eq:
  "ratio_loop_b64 levels (t, n) =
     (case ratios_b64 (valid_levels levels) of
        Inl e \<Rightarrow> Inl e
      | Inr rs \<Rightarrow> Inr (foldl float_add t rs, n + int (length rs)))"
proof (induction levels arbitrary: t n)
  case Nil
  then show ?case by (simp add: valid_levels_def)
next
  case (Cons p levels)
  obtain wid lvl where p: "p = (wid, lvl)" by (cases p)
  show ?case
  proof (cases "0 < threshold_range lvl")
    case False
    then show ?thesis using Cons.IH[of t n] by (simp add: p valid_levels_def)
  next
    case True
    then have v: "valid_levels ((wid, lvl) # levels) = (wid, lvl) # valid_levels levels"
      by (simp add: valid_levels_def)
    show ?thesis
    proof (cases "ratio_b64 lvl")
      case (Inl e)
      then show ?thesis using True by (simp add: p v)
    next
      case (Inr r)
      then show ?thesis
        using True Cons.IH[of "float_add t r" "n + 1"]
        by (simp add: p v split: sum.splits)
    qed
  qed
qed

lemma classify_item_b64_eq:
  assumes "1 < length (id_warehouses data)" "valid_levels (id_warehouses data) \<noteq> []"
  shows "classify_item_b64 data =
    (case mean_b64 (id_warehouses data) of
       Inl e \<Rightarrow> Inl e
     | Inr avg \<Rightarrow>
         (case classify_loop_b64 avg (id_warehouses data) ([], []) of
            Inl e \<Rightarrow> Inl e
          | Inr dicts \<Rightarrow> Inr (Some dicts)))"
proof (cases "ratios_b64 (valid_levels (id_warehouses data))")
  case (Inl e)
  then show ?thesis
    using assms(1) by (simp add: classify_item_b64_def ratio_loop_b64_eq mean_b64_def)
next
  case (Inr rs)
  from ratios_b64_length[OF this] assms(2) have "rs \<noteq> []" by auto
  then show ?thesis
    using assms(1) Inr by (simp add: classify_item_b64_def ratio_loop_b64_eq mean_b64_def)
qed

lemma classify_item_b64_None:
  assumes "classify_item_b64 data = Inr None"
  shows "\<not> 1 < length (id_warehouses data) \<or> valid_levels (id_warehouses data) = []"
proof (rule ccontr)
  assume "\<not> ?thesis"
  then have "1 < length (id_warehouses data)" "valid_levels (id_warehouses data) \<noteq> []"
    by auto
  from classify_item_b64_eq[OF this] assms show False
    by (auto split: sum.splits)
qed

subsection \<open>No overflow on levels of moderate size\<close>

lemma ratio_b64_within:
  assumes "moderate_level lvl" "0 < threshold_range lvl"
  shows "\<exists>r. ratio_b64 lvl = Inr r \<and> float_within 64 r"
proof -
  have "\<bar>sl_quantity lvl - sl_min_threshold lvl\<bar> \<le> 2 ^ nat 64"
    using assms(1) by (auto simp: moderate_level_def abs_le_iff)
  from int_truediv_within[OF this assms(2)] show ?thesis by (simp add: ratio_b64_def)
qed

lemma float_mul_range_within:
  assumes "float_within k a" "moderate_level lvl" "0 < threshold_range lvl"
    "- 1022 \<le> k" "k + 64 \<le> 1023"
  shows "\<exists>r. float_mul_int a (threshold_range lvl) = Inr r \<and> float_within (k + 64) r"
proof -
  have "\<bar>threshold_range lvl\<bar> \<le> 2 ^ nat 64"
    using assms(2) by (auto simp: moderate_level_def threshold_range_def abs_le_iff)
  from float_of_int_within[OF this] obtain b where
    b: "float_of_int (threshold_range lvl) = Inr b" "float_within 64 b" by auto
  have "float_within (k + 64) (float_mul a b)"
    by (rule float_mul_within[OF assms(1) b(2)]) (use assms(4,5) in simp_all)
  then show ?thesis by (simp add: float_mul_int_def b(1))
qed

lemma excess_amount_b64_returns:
  assumes "float_within k avg" "float_within 64 r" "moderate_level lvl"
    "0 < threshold_range lvl" "64 \<le> k" "k \<le> 900"
  shows "\<exists>n. excess_amount_b64 avg r (threshold_range lvl) = Inr n"
proof -
  have r: "float_within k r" using assms(2,5) by (rule float_within_mono)
  have 1: "float_within (k + 1) (float_sub r avg)"
    by (rule float_sub_within[OF r assms(1)]) (use assms(5,6) in simp_all)
  have 2: "float_within (k + 1) literal_0_15"
    using literal_0_15_within by (rule float_within_mono) (use assms(5) in simp)
  have "float_within (k + 1 + 1) (float_sub (float_sub r avg) literal_0_15)"
    by (rule float_sub_within[OF 1 2]) (use assms(5,6) in simp_all)
  from float_mul_range_within[OF this assms(3,4)] assms(5,6) obtain x where
    "float_mul_int (float_sub (float_sub r avg) literal_0_15) (threshold_range lvl) = Inr x"
    "float_within (k + 1 + 1 + 64) x" by auto
  then show ?thesis
    using int_of_float_within[of "k + 1 + 1 + 64" x] by (simp add: excess_amount_b64_def)
qed

lemma deficit_amount_b64_returns:
  assumes "float_within k avg" "float_within 64 r" "moderate_level lvl"
    "0 < threshold_range lvl" "64 \<le> k" "k \<le> 900"
  shows "\<exists>n. deficit_amount_b64 avg r (threshold_range lvl) = Inr n"
proof -
  have r: "float_within (k + 1) r"
    using assms(2) by (rule float_within_mono) (use assms(5) in simp)
  have 1: "float_within k literal_0_15"
    using literal_0_15_within by (rule float_within_mono) (use assms(5) in simp)
  have 2: "float_within (k + 1) (float_sub avg literal_0_15)"
    by (rule float_sub_within[OF assms(1) 1]) (use assms(5,6) in simp_all)
  have "float_within (k + 1 + 1) (float_sub (float_sub avg literal_0_15) r)"
    by (rule float_sub_within[OF 2 r]) (use assms(5,6) in simp_all)
  from float_mul_range_within[OF this assms(3,4)] assms(5,6) obtain x where
    "float_mul_int (float_sub (float_sub avg literal_0_15) r) (threshold_range lvl) = Inr x"
    "float_within (k + 1 + 1 + 64) x" by auto
  then show ?thesis
    using int_of_float_within[of "k + 1 + 1 + 64" x] by (simp add: deficit_amount_b64_def)
qed

lemma classify_loop_b64_returns:
  assumes "list_all (\<lambda>p. moderate_level (snd p)) levels" "float_within k avg"
    "64 \<le> k" "k \<le> 900"
  shows "\<exists>res. classify_loop_b64 avg levels (e, d) = Inr res"
  using assms(1)
proof (induction levels arbitrary: e d)
  case Nil
  then show ?case by simp
next
  case (Cons p levels)
  obtain wid lvl where p: "p = (wid, lvl)" by (cases p)
  have ml: "moderate_level lvl" and rest: "list_all (\<lambda>p. moderate_level (snd p)) levels"
    using Cons.prems by (auto simp: p)
  note IH = Cons.IH[OF rest]
  show ?case
  proof (cases "0 < threshold_range lvl")
    case False
    then show ?thesis using IH[of e d] by (simp add: p)
  next
    case pos: True
    from ratio_b64_within[OF ml pos] obtain r where
      r: "ratio_b64 lvl = Inr r" "float_within 64 r" by auto
    from excess_amount_b64_returns[OF assms(2) r(2) ml pos assms(3,4)] obtain a where
      a: "excess_amount_b64 avg r (threshold_range lvl) = Inr a" by auto
    from deficit_amount_b64_returns[OF assms(2) r(2) ml pos assms(3,4)] obtain b where
      b: "deficit_amount_b64 avg r (threshold_range lvl) = Inr b" by auto
    show ?thesis
      using pos r(1) a b IH[of e d] IH[of "AList.update wid a e" d]
        IH[of e "AList.update wid b d"]
      by (simp add: p)
  qed
qed

lemma ratios_b64_within:
  assumes "list_all (\<lambda>p. moderate_level (snd p) \<and> 0 < threshold_range (snd p)) levels"
  shows "\<exists>rs. ratios_b64 levels = Inr rs \<and> list_all (float_within 64) rs"
  using assms
proof (induction levels)
  case Nil
  then show ?case by simp
next
  case (Cons p levels)
  then obtain rs where rs: "ratios_b64 levels = Inr rs" "list_all (float_within 64) rs"
    by auto
  from Cons.prems have "moderate_level (snd p)" "0 < threshold_range (snd p)" by auto
  from ratio_b64_within[OF this] obtain r where "ratio_b64 (snd p) = Inr r" "float_within 64 r"
    by auto
  then show ?case using rs by simp
qed

lemma foldl_float_add_within:
  assumes "list_all (float_within 64) rs" "float_within k t" "64 \<le> k"
    "k + int (length rs) \<le> 1023"
  shows "float_within (k + int (length rs)) (foldl float_add t rs)"
  using assms
proof (induction rs arbitrary: t k)
  case Nil
  then show ?case by simp
next
  case (Cons r rs)
  have r: "float_within k r" using Cons.prems(1,3) by (auto intro: float_within_mono)
  have "float_within (k + 1) (float_add t r)"
    by (rule float_add_within[OF Cons.prems(2) r]) (use Cons.prems(3,4) in simp_all)
  from Cons.IH[OF _ this] Cons.prems show ?case
    by (simp add: algebra_simps)
qed

lemma mean_b64_within:
  assumes "moderate_levels levels" "valid_levels levels \<noteq> []"
  shows "\<exists>avg. mean_b64 levels = Inr avg \<and> float_within 864 avg"
proof -
  let ?v = "valid_levels levels"
  have "length ?v \<le> length levels" by (simp add: valid_levels_def)
  then have len: "length ?v \<le> 800"
    using assms(1) by (simp add: moderate_levels_def)
  have "list_all (\<lambda>p. moderate_level (snd p) \<and> 0 < threshold_range (snd p)) ?v"
    using assms(1) by (auto simp: moderate_levels_def valid_levels_def list_all_iff)
  from ratios_b64_within[OF this] obtain rs where
    rs: "ratios_b64 ?v = Inr rs" "list_all (float_within 64) rs" by auto
  from ratios_b64_length[OF rs(1)] have l: "length rs = length ?v" .
  have "float_within 64 (Finite 0)" using pow2_pos[of 64] by simp
  from foldl_float_add_within[OF rs(2) this] len l have
    "float_within (64 + int (length rs)) (foldl float_add (Finite 0) rs)" by simp
  then have t: "float_within 864 (foldl float_add (Finite 0) rs)"
    by (rule float_within_mono) (use len l in simp)
  have n1: "1 \<le> int (length rs)" using assms(2) l by (cases rs) auto
  have n2: "int (length rs) < 2 ^ 53" using len l by simp
  from float_truediv_int_within[OF t n1 n2] obtain avg where
    "float_truediv_int (foldl float_add (Finite 0) rs) (int (length rs)) = Inr avg"
    "float_within 864 avg"
    by auto
  then show ?thesis by (simp add: mean_b64_def rs(1))
qed

lemma classify_item_b64_returns:
  assumes "moderate_levels (id_warehouses data)" "1 < length (id_warehouses data)"
    "valid_levels (id_warehouses data) \<noteq> []"
  shows "\<exists>E D. classify_item_b64 data = Inr (Some (E, D))"
proof -
  from mean_b64_within[OF assms(1,3)] obtain avg where
    avg: "mean_b64 (id_warehouses data) = Inr avg" "float_within 864 avg" by auto
  have "list_all (\<lambda>p. moderate_level (snd p)) (id_warehouses data)"
    using assms(1) by (simp add: moderate_levels_def)
  from classify_loop_b64_returns[OF this avg(2), of "[]" "[]"] obtain res where
    "classify_loop_b64 avg (id_warehouses data) ([], []) = Inr res" by auto
  then show ?thesis
    using classify_item_b64_eq[OF assms(2,3)] avg(1) by (cases res) simp
qed

subsection \<open>No exception other than an overflow\<close>

lemma excess_amount_b64_error:
  assumes "avg \<noteq> NaN" "0 < n" "excess_amount_b64 avg (Finite x) n = Inl e"
  shows "e = OverflowError"
proof -
  obtain c where c: "literal_0_15 = Finite c" using literal_0_15_Finite by blast
  have "float_sub (float_sub (Finite x) avg) literal_0_15 \<noteq> NaN"
    unfolding c using assms(1) by (intro float_sub_Finite_not_NaN Finite_float_sub_not_NaN)
  from float_mul_int_cases[OF this assms(2)] assms(3) show ?thesis
    by (auto simp: excess_amount_b64_def dest: int_of_float_error)
qed

lemma deficit_amount_b64_error:
  assumes "avg \<noteq> NaN" "0 < n" "deficit_amount_b64 avg (Finite x) n = Inl e"
  shows "e = OverflowError"
proof -
  obtain c where c: "literal_0_15 = Finite c" using literal_0_15_Finite by blast
  have "float_sub avg literal_0_15 \<noteq> NaN"
    unfolding c using assms(1) by (rule float_sub_Finite_not_NaN)
  then have "float_sub (float_sub avg literal_0_15) (Finite x) \<noteq> NaN"
    by (rule float_sub_Finite_not_NaN)
  from float_mul_int_cases[OF this assms(2)] assms(3) show ?thesis
    by (auto simp: deficit_amount_b64_def dest: int_of_float_error)
qed

lemma ratio_b64_cases:
  assumes "0 < threshold_range lvl"
  shows "ratio_b64 lvl = Inl OverflowError \<or> (\<exists>x. ratio_b64 lvl = Inr (Finite x))"
  unfolding ratio_b64_def using assms by (rule int_truediv_cases)

lemma ratio_loop_b64_cases:
  assumes "t \<noteq> NaN" "0 \<le> n"
  shows "ratio_loop_b64 levels (t, n) = Inl OverflowError \<or>
         (\<exists>t' n'. ratio_loop_b64 levels (t, n) = Inr (t', n') \<and> t' \<noteq> NaN \<and> 0 \<le> n')"
  using assms
proof (induction levels arbitrary: t n)
  case Nil
  then show ?case by simp
next
  case (Cons p levels)
  obtain wid lvl where p: "p = (wid, lvl)" by (cases p)
  show ?case
  proof (cases "0 < threshold_range lvl")
    case False
    then show ?thesis using Cons.IH[OF Cons.prems] by (simp add: p)
  next
    case True
    from ratio_b64_cases[OF True] show ?thesis
    proof
      assume "ratio_b64 lvl = Inl OverflowError"
      then show ?thesis using True by (simp add: p)
    next
      assume "\<exists>x. ratio_b64 lvl = Inr (Finite x)"
      then obtain x where x: "ratio_b64 lvl = Inr (Finite x)" ..
      have "float_add t (Finite x) \<noteq> NaN"
        using Cons.prems(1) by (rule float_add_Finite_not_NaN)
      moreover have "0 \<le> n + 1" using Cons.prems(2) by simp
      ultimately show ?thesis
        using Cons.IH[of "float_add t (Finite x)" "n + 1"] True x by (simp add: p)
    qed
  qed
qed

lemma classify_loop_b64_error:
  assumes "avg \<noteq> NaN" "classify_loop_b64 avg levels (e, d) = Inl err"
  shows "err = OverflowError"
  using assms(2)
proof (induction levels arbitrary: e d)
  case Nil
  then show ?case by simp
next
  case (Cons p levels)
  obtain wid lvl where p: "p = (wid, lvl)" by (cases p)
  show ?case
  proof (cases "0 < threshold_range lvl")
    case False
    then show ?thesis using Cons by (simp add: p)
  next
    case pos: True
    from ratio_b64_cases[OF pos] show ?thesis
    proof
      assume "ratio_b64 lvl = Inl OverflowError"
      then show ?thesis using pos Cons.prems by (simp add: p)
    next
      assume "\<exists>x. ratio_b64 lvl = Inr (Finite x)"
      then obtain x where x: "ratio_b64 lvl = Inr (Finite x)" ..
      note ex = excess_amount_b64_error[OF assms(1) pos, of x]
      note de = deficit_amount_b64_error[OF assms(1) pos, of x]
      show ?thesis
        using Cons.prems pos x Cons.IH ex de
        by (auto simp: p split: if_splits sum.splits)
    qed
  qed
qed

lemma classify_item_b64_error:
  assumes "classify_item_b64 data = Inl e"
  shows "e = OverflowError"
proof -
  have len: "\<not> length (id_warehouses data) \<le> 1"
    using assms by (auto simp: classify_item_b64_def)
  have "ratio_loop_b64 (id_warehouses data) (Finite 0, 0) = Inl OverflowError \<or>
        (\<exists>t' n'. ratio_loop_b64 (id_warehouses data) (Finite 0, 0) = Inr (t', n') \<and>
              t' \<noteq> NaN \<and> 0 \<le> n')"
    by (rule ratio_loop_b64_cases) simp_all
  then show ?thesis
  proof
    assume "ratio_loop_b64 (id_warehouses data) (Finite 0, 0) = Inl OverflowError"
    then show ?thesis using assms len by (simp add: classify_item_b64_def)
  next
    assume "\<exists>t' n'. ratio_loop_b64 (id_warehouses data) (Finite 0, 0) = Inr (t', n') \<and>
              t' \<noteq> NaN \<and> 0 \<le> n'"
    then obtain t n where tn: "ratio_loop_b64 (id_warehouses data) (Finite 0, 0) = Inr (t, n)"
      and t: "t \<noteq> NaN" and n: "0 \<le> n" by blast
    show ?thesis
    proof (cases "n = 0")
      case True
      then show ?thesis using assms len tn by (simp add: classify_item_b64_def)
    next
      case False
      then have "0 < n" using n by simp
      from float_truediv_int_cases[OF t this] show ?thesis
      proof
        assume "float_truediv_int t n = Inl OverflowError"
        then show ?thesis using assms len tn False by (simp add: classify_item_b64_def)
      next
        assume "\<exists>b. float_truediv_int t n = Inr b \<and> b \<noteq> NaN"
        then obtain avg where avg: "float_truediv_int t n = Inr avg" "avg \<noteq> NaN" by blast
        from assms len tn False avg(1) obtain err where
          "classify_loop_b64 avg (id_warehouses data) ([], []) = Inl err" "err = e"
          by (auto simp: classify_item_b64_def split: sum.splits)
        with classify_loop_b64_error[OF avg(2)] show ?thesis by blast
      qed
    qed
  qed
qed

subsection \<open>The dictionaries of the classification\<close>

lemma classify_loop_b64_step:
  assumes "classify_loop_b64 avg ((wid, lvl) # levels) (e, d) = Inr res"
  shows "classify_loop_b64 avg levels
           (case excess_entry_b64 avg lvl of None \<Rightarrow> e | Some a \<Rightarrow> AList.update wid a e,
            case deficit_entry_b64 avg lvl of None \<Rightarrow> d | Some a \<Rightarrow> AList.update wid a d) =
         Inr res"
proof (cases "0 < threshold_range lvl")
  case False
  then show ?thesis
    using assms by (simp add: excess_entry_b64_def deficit_entry_b64_def)
next
  case pos: True
  from assms pos obtain r where r: "ratio_b64 lvl = Inr r"
    by (cases "ratio_b64 lvl") auto
  show ?thesis
  proof (cases "float_gt r (float_add avg literal_0_25)")
    case True
    then have nlt: "\<not> float_lt r (float_sub avg literal_0_25)"
      using tests_exclusive by blast
    from assms pos r True obtain a where
      a: "excess_amount_b64 avg r (threshold_range lvl) = Inr a"
      by (cases "excess_amount_b64 avg r (threshold_range lvl)") auto
    show ?thesis
      using assms pos r True nlt a
      by (simp add: excess_entry_b64_def deficit_entry_b64_def split: if_splits)
  next
    case ngt: False
    show ?thesis
    proof (cases "float_lt r (float_sub avg literal_0_25)")
      case True
      from assms pos r ngt True obtain a where
        a: "deficit_amount_b64 avg r (threshold_range lvl) = Inr a"
        by (cases "deficit_amount_b64 avg r (threshold_range lvl)") auto
      show ?thesis
        using assms pos r ngt True a
        by (simp add: excess_entry_b64_def deficit_entry_b64_def split: if_splits)
    next
      case False
      then show ?thesis
        using assms pos r ngt
        by (simp add: excess_entry_b64_def deficit_entry_b64_def)
    qed
  qed
qed

lemma classify_loop_b64_lookup:
  assumes "distinct (map fst levels)" "classify_loop_b64 avg levels (e, d) = Inr (E, D)"
  shows "map_of E wid =
           (case map_of levels wid of
              None \<Rightarrow> map_of e wid
            | Some lvl \<Rightarrow>
                (case excess_entry_b64 avg lvl of None \<Rightarrow> map_of e wid | Some a \<Rightarrow> Some a)) \<and>
         map_of D wid =
           (case map_of levels wid of
              None \<Rightarrow> map_of d wid
            | Some lvl \<Rightarrow>
                (case deficit_entry_b64 avg lvl of None \<Rightarrow> map_of d wid | Some a \<Rightarrow> Some a))"
  using assms
proof (induction levels arbitrary: e d)
  case Nil
  then show ?case by simp
next
  case (Cons p levels)
  obtain k lvl where p: "p = (k, lvl)" by (cases p)
  have dist: "distinct (map fst levels)" and fresh: "map_of levels k = None"
    using Cons.prems(1) by (auto simp: p map_of_eq_None_iff)
  from Cons.prems(2) have
    "classify_loop_b64 avg levels
       (case excess_entry_b64 avg lvl of None \<Rightarrow> e | Some a \<Rightarrow> AList.update k a e,
        case deficit_entry_b64 avg lvl of None \<Rightarrow> d | Some a \<Rightarrow> AList.update k a d) =
     Inr (E, D)"
    unfolding p by (rule classify_loop_b64_step)
  from Cons.IH[OF dist this] fresh show ?case
    by (auto simp: p update_conv' split: option.splits)
qed

lemma excess_entry_b64_pos: "excess_entry_b64 avg lvl = Some a \<Longrightarrow> 0 < a"
  by (auto simp: excess_entry_b64_def split: if_splits sum.splits)

lemma classify_loop_b64_excess_ok:
  assumes "amounts_ok e" "classify_loop_b64 avg levels (e, d) = Inr (E, D)"
  shows "amounts_ok E"
  using assms
proof (induction levels arbitrary: e d)
  case Nil
  then show ?case by simp
next
  case (Cons p levels)
  obtain k lvl where p: "p = (k, lvl)" by (cases p)
  let ?e = "case excess_entry_b64 avg lvl of None \<Rightarrow> e | Some a \<Rightarrow> AList.update k a e"
  let ?d = "case deficit_entry_b64 avg lvl of None \<Rightarrow> d | Some a \<Rightarrow> AList.update k a d"
  from Cons.prems(2) have step: "classify_loop_b64 avg levels (?e, ?d) = Inr (E, D)"
    unfolding p by (rule classify_loop_b64_step)
  have "amounts_ok ?e"
  proof (cases "excess_entry_b64 avg lvl")
    case None
    then show ?thesis using Cons.prems(1) by simp
  next
    case (Some a)
    then have "0 \<le> a" using excess_entry_b64_pos[OF Some] by simp
    then show ?thesis using Cons.prems(1) Some by (simp add: amounts_ok_update)
  qed
  from Cons.IH[OF this step] show ?case .
qed

lemma identify_item_b64_Some:
  assumes "identify_item_b64 data = Inr (Some im)"
  shows "classify_item_b64 data = Inr (Some (excess im, deficit im)) \<and>
         excess im \<noteq> [] \<and> deficit im \<noteq> []"
  using assms
  by (auto simp: identify_item_b64_def split: sum.splits option.splits if_splits)

lemma classify_item_b64_excess_ok:
  assumes "classify_item_b64 data = Inr (Some (E, D))"
  shows "amounts_ok E"
proof -
  from assms obtain avg where "classify_loop_b64 avg (id_warehouses data) ([], []) = Inr (E, D)"
    by (auto simp: classify_item_b64_def split: if_splits sum.splits prod.splits)
  with classify_loop_b64_excess_ok[OF amounts_ok_Nil] show ?thesis by blast
qed

lemma identify_loop_b64_entries:
  assumes "identify_loop_b64 xs acc = Inr res" "p \<in> set res"
  shows "p \<in> set acc \<or> (\<exists>data. identify_item_b64 data = Inr (Some (snd p)))"
  using assms
proof (induction xs arbitrary: acc)
  case Nil
  then show ?case by simp
next
  case (Cons x xs)
  obtain item data where x: "x = (item, data)" by (cases x)
  from Cons.prems(1) obtain r where r: "identify_item_b64 data = Inr r"
    by (cases "identify_item_b64 data") (auto simp: x)
  show ?case
  proof (cases r)
    case None
    with Cons.prems r have "identify_loop_b64 xs acc = Inr res" by (simp add: x)
    from Cons.IH[OF this Cons.prems(2)] show ?thesis .
  next
    case (Some entry)
    with Cons.prems r have "identify_loop_b64 xs (AList.update item entry acc) = Inr res"
      by (simp add: x)
    from Cons.IH[OF this Cons.prems(2)] show ?thesis
      using r Some by (auto dest!: set_alist_update)
  qed
qed

lemma identify_loop_b64_distinct:
  assumes "distinct (map fst acc)" "identify_loop_b64 xs acc = Inr res"
  shows "distinct (map fst res)"
  using assms
proof (induction xs arbitrary: acc)
  case Nil
  then show ?case by simp
next
  case (Cons x xs)
  obtain k data where x: "x = (k, data)" by (cases x)
  from Cons.prems(2) obtain r where r: "identify_item_b64 data = Inr r"
    by (cases "identify_item_b64 data") (auto simp: x)
  show ?case
  proof (cases r)
    case None
    with Cons.prems(2) r have "identify_loop_b64 xs acc = Inr res" by (simp add: x)
    from Cons.IH[OF Cons.prems(1) this] show ?thesis .
  next
    case (Some entry)
    with Cons.prems(2) r have "identify_loop_b64 xs (AList.update k entry acc) = Inr res"
      by (simp add: x)
    moreover have "distinct (map fst (AList.update k entry acc))"
      using Cons.prems(1) by (simp add: distinct_update)
    ultimately show ?thesis using Cons.IH by blast
  qed
qed

lemma identify_loop_b64_returns:
  assumes "identify_loop_b64 xs acc = Inr res" "p \<in> set xs"
  shows "\<exists>r. identify_item_b64 (snd p) = Inr r"
  using assms
proof (induction xs arbitrary: acc)
  case Nil
  then show ?case by simp
next
  case (Cons x xs)
  obtain k data where x: "x = (k, data)" by (cases x)
  from Cons.prems(1) obtain r where r: "identify_item_b64 data = Inr r"
    by (cases "identify_item_b64 data") (auto simp: x)
  have "\<exists>acc'. identify_loop_b64 xs acc' = Inr res"
    using Cons.prems(1) r by (cases r) (auto simp: x)
  then obtain acc' where "identify_loop_b64 xs acc' = Inr res" ..
  from Cons.IH[OF this] Cons.prems(2) r show ?case by (auto simp: x)
qed

lemma identify_loop_b64_lookup:
  assumes "distinct (map fst xs)" "identify_loop_b64 xs acc = Inr res"
  shows "map_of res item =
      (case map_of xs item of
         None \<Rightarrow> map_of acc item
       | Some data \<Rightarrow>
           (case identify_item_b64 data of
              Inr (Some im) \<Rightarrow> Some im
            | _ \<Rightarrow> map_of acc item))"
  using assms
proof (induction xs arbitrary: acc)
  case Nil
  then show ?case by simp
next
  case (Cons x xs)
  obtain k data where x: "x = (k, data)" by (cases x)
  have dist: "distinct (map fst xs)" and fresh: "map_of xs k = None"
    using Cons.prems(1) by (auto simp: x map_of_eq_None_iff)
  from Cons.prems(2) obtain r where r: "identify_item_b64 data = Inr r"
    by (cases "identify_item_b64 data") (auto simp: x)
  show ?case
  proof (cases r)
    case None
    with Cons.prems(2) r have "identify_loop_b64 xs acc = Inr res" by (simp add: x)
    from Cons.IH[OF dist this] show ?thesis
      using fresh r None by (auto simp: x split: option.splits sum.splits)
  next
    case (Some entry)
    with Cons.prems(2) r have "identify_loop_b64 xs (AList.update k entry acc) = Inr res"
      by (simp add: x)
    from Cons.IH[OF dist this] show ?thesis
      using fresh r Some by (auto simp: x update_conv' split: option.splits sum.splits)
  qed
qed

lemma identify_inventory_imbalances_b64_ok:
  assumes "identify_inventory_imbalances_b64 ws = Inr res"
  shows "distinct (map fst res)"
    and "\<forall>p \<in> set res. amounts_ok (excess (snd p))"
proof -
  note run = assms[unfolded identify_inventory_imbalances_b64_def]
  show "distinct (map fst res)"
    using identify_loop_b64_distinct[OF _ run] by simp
  show "\<forall>p \<in> set res. amounts_ok (excess (snd p))"
  proof
    fix p assume "p \<in> set res"
    from identify_loop_b64_entries[OF run this]
    obtain data where "identify_item_b64 data = Inr (Some (snd p))" by auto
    from identify_item_b64_Some[OF this] have
      "classify_item_b64 data = Inr (Some (excess (snd p), deficit (snd p)))" by simp
    then show "amounts_ok (excess (snd p))" by (rule classify_item_b64_excess_ok)
  qed
qed

lemma balance_inventory_b64_items:
  assumes "balance_inventory_b64 ws = Inr ds" "d \<in> set ds" "it \<in> set (td_items d)"
  shows "\<exists>res. identify_inventory_imbalances_b64 ws = Inr res \<and> ti_id it \<in> fst ` set res"
proof -
  from assms(1) obtain res where res: "identify_inventory_imbalances_b64 ws = Inr res"
    and bl: "balance_loop res [] = Inr ds"
    by (auto simp: balance_inventory_b64_def split: sum.splits)
  from balance_loop_invariant[OF identify_inventory_imbalances_b64_ok[OF res], of "[]"] bl
  have "\<forall>d \<in> set ds. \<forall>it \<in> set (td_items d). ti_id it \<in> fst ` set res" by auto
  with assms(2,3) res show ?thesis by blast
qed

text \<open>
  The bound on the quantities drawn from a source does not depend on the arithmetic: it
  holds for the amounts as the floats compute them.
\<close>

lemma balance_inventory_b64_within_excess:
  assumes "identify_inventory_imbalances_b64 ws = Inr res"
  shows "\<exists>ds. balance_inventory_b64 ws = Inr ds \<and>
     (\<forall>item src. transferred_from item src ds \<le>
        of_int (case map_of res item of None \<Rightarrow> 0
                | Some entry \<Rightarrow> amount_of (excess entry) src))"
  using balance_loop_invariant[OF identify_inventory_imbalances_b64_ok[OF assms], of "[]"]
  by (auto simp: balance_inventory_b64_def assms)

text \<open>
  Claim C3 as stated fails: a warehouse above the threshold whose computed amount is zero
  is not recorded. A holds 2 and B holds 0 of an item with minimum 0 and maximum 2: the
  ratios are 1 and 0 and the mean is 0.5, exactly and as floats; A's ratio exceeds 0.75,
  and both dictionaries are empty, since \<^verbatim>\<open>int((1.0 - 0.5 - 0.15) * 2)\<close> is 0.
\<close>

theorem classification_threshold_counterexample:
  "map_of (holdings [scenario_warehouse ''A'' 2 0 2, scenario_warehouse ''B'' 0 0 2] ''X'') ''A'' =
     Some \<lparr>sl_quantity = 2, sl_min_threshold = 0, sl_max_threshold = 2\<rparr> \<and>
   0 < threshold_range \<lparr>sl_quantity = 2, sl_min_threshold = 0, sl_max_threshold = 2\<rparr> \<and>
   spec_mean_ratio (holdings [scenario_warehouse ''A'' 2 0 2, scenario_warehouse ''B'' 0 0 2] ''X'')
     + 1 / 4 < ratio \<lparr>sl_quantity = 2, sl_min_threshold = 0, sl_max_threshold = 2\<rparr> \<and>
   ratio_b64 \<lparr>sl_quantity = 2, sl_min_threshold = 0, sl_max_threshold = 2\<rparr> = Inr (Finite 1) \<and>
   mean_b64 (holdings [scenario_warehouse ''A'' 2 0 2, scenario_warehouse ''B'' 0 0 2] ''X'') =
     Inr (Finite (1 / 2)) \<and>
   float_gt (Finite 1) (float_add (Finite (1 / 2)) literal_0_25) \<and>
   map_option classify_item_b64
     (map_of (collect_inventory_loop
                [scenario_warehouse ''A'' 2 0 2, scenario_warehouse ''B'' 0 0 2] []) ''X'') =
     Some (Inr (Some ([], [])))"
  by code_simp

text \<open>
  Claim C3, amended. For an item held by more than one warehouse, one of them with a
  positive range, the classification either raises \<^verbatim>\<open>OverflowError\<close> or returns the two
  dictionaries; it returns them when the levels are of moderate size, and whenever the
  balancing returns. With \<open>avg\<close> the mean of the ratios as the floats compute it, a
  warehouse is then recorded as excess exactly when its range is positive, its ratio
  exceeds \<open>avg + 0.25\<close> and the amount \<^verbatim>\<open>int((ratio - avg - 0.15) * range)\<close> is positive,
  with that amount; it is recorded as deficit exactly when its range is positive, its
  ratio is below \<open>avg - 0.25\<close> and the amount \<^verbatim>\<open>int((avg - 0.15 - ratio) * range)\<close> is
  positive, with that amount; every sum, difference, product and quotient is the
  operation on floats. The balancing returns a transfer decision for the item only if
  both dictionaries are non-empty.
\<close>

theorem imbalance_classification:
  assumes "wf_warehouses warehouses"
    and "1 < length (holdings warehouses item)"
    and "valid_levels (holdings warehouses item) \<noteq> []"
  shows "\<exists>data.
     map_of (collect_inventory_loop warehouses []) item = Some data \<and>
     id_warehouses data = holdings warehouses item \<and>
     classify_item_b64 data \<noteq> Inr None \<and>
     (\<forall>e. classify_item_b64 data = Inl e \<longrightarrow> e = OverflowError) \<and>
     (moderate_levels (holdings warehouses item) \<longrightarrow>
        (\<exists>E D. classify_item_b64 data = Inr (Some (E, D)))) \<and>
     (\<forall>ds. balance_inventory_b64 warehouses = Inr ds \<longrightarrow>
        (\<exists>E D. classify_item_b64 data = Inr (Some (E, D)))) \<and>
     (\<forall>E D. classify_item_b64 data = Inr (Some (E, D)) \<longrightarrow>
        (\<exists>avg. mean_b64 (holdings warehouses item) = Inr avg \<and>
           (\<forall>wid a. map_of E wid = Some a \<longleftrightarrow>
              (\<exists>lvl r. map_of (holdings warehouses item) wid = Some lvl \<and>
                 0 < threshold_range lvl \<and> ratio_b64 lvl = Inr r \<and>
                 float_gt r (float_add avg literal_0_25) \<and>
                 excess_amount_b64 avg r (threshold_range lvl) = Inr a \<and> 0 < a)) \<and>
           (\<forall>wid a. map_of D wid = Some a \<longleftrightarrow>
              (\<exists>lvl r. map_of (holdings warehouses item) wid = Some lvl \<and>
                 0 < threshold_range lvl \<and> ratio_b64 lvl = Inr r \<and>
                 float_lt r (float_sub avg literal_0_25) \<and>
                 deficit_amount_b64 avg r (threshold_range lvl) = Inr a \<and> 0 < a)) \<and>
           (\<forall>ds. balance_inventory_b64 warehouses = Inr ds \<longrightarrow>
              item \<in> ti_id ` (\<Union>d \<in> set ds. set (td_items d)) \<longrightarrow> E \<noteq> [] \<and> D \<noteq> [])))"
proof -
  let ?h = "holdings warehouses item" and ?inv = "collect_inventory_loop warehouses []"
  have "?h \<noteq> []" using assms(2) by auto
  then obtain data where data: "map_of ?inv item = Some data"
    using collect_inventory_holdings(3)[OF assms(1), of item] by (cases "map_of ?inv item") auto
  from collect_inventory_holdings(2)[OF assms(1) data] have h: "id_warehouses data = ?h" by simp
  have dinv: "distinct (map fst ?inv)"
    using assms(1) by (rule collect_inventory_holdings(1))
  have mem: "(item, data) \<in> set ?inv" using data by (rule map_of_SomeD)
  have dh: "distinct (map fst ?h)"
    using assms(1) by (intro holdings_distinct) (simp add: wf_warehouses_def)
  have ci: "classify_item_b64 data =
    (case mean_b64 ?h of
       Inl e \<Rightarrow> Inl e
     | Inr avg \<Rightarrow>
         (case classify_loop_b64 avg ?h ([], []) of
            Inl e \<Rightarrow> Inl e
          | Inr dicts \<Rightarrow> Inr (Some dicts)))"
    using classify_item_b64_eq[of data] assms(2,3) unfolding h by simp
  have nn: "classify_item_b64 data \<noteq> Inr None"
    unfolding ci by (auto split: sum.splits)
  have ret: "\<exists>E D. classify_item_b64 data = Inr (Some (E, D))"
    if "balance_inventory_b64 warehouses = Inr ds" for ds
  proof -
    from that obtain res where "identify_loop_b64 ?inv [] = Inr res"
      by (auto simp: balance_inventory_b64_def identify_inventory_imbalances_b64_def
          split: sum.splits)
    from identify_loop_b64_returns[OF this mem] obtain r where
      "identify_item_b64 data = Inr r" by auto
    then obtain c where "classify_item_b64 data = Inr c"
      by (auto simp: identify_item_b64_def split: sum.splits)
    with nn show ?thesis by (cases c) auto
  qed
  have main: "\<exists>avg. mean_b64 ?h = Inr avg \<and>
           (\<forall>wid a. map_of E wid = Some a \<longleftrightarrow>
              (\<exists>lvl r. map_of ?h wid = Some lvl \<and>
                 0 < threshold_range lvl \<and> ratio_b64 lvl = Inr r \<and>
                 float_gt r (float_add avg literal_0_25) \<and>
                 excess_amount_b64 avg r (threshold_range lvl) = Inr a \<and> 0 < a)) \<and>
           (\<forall>wid a. map_of D wid = Some a \<longleftrightarrow>
              (\<exists>lvl r. map_of ?h wid = Some lvl \<and>
                 0 < threshold_range lvl \<and> ratio_b64 lvl = Inr r \<and>
                 float_lt r (float_sub avg literal_0_25) \<and>
                 deficit_amount_b64 avg r (threshold_range lvl) = Inr a \<and> 0 < a)) \<and>
           (\<forall>ds. balance_inventory_b64 warehouses = Inr ds \<longrightarrow>
              item \<in> ti_id ` (\<Union>d \<in> set ds. set (td_items d)) \<longrightarrow> E \<noteq> [] \<and> D \<noteq> [])"
    if cED: "classify_item_b64 data = Inr (Some (E, D))" for E D
  proof -
    from cED obtain avg where avg: "mean_b64 ?h = Inr avg"
      and cl: "classify_loop_b64 avg ?h ([], []) = Inr (E, D)"
      unfolding ci by (auto split: sum.splits)
    have lookE: "map_of E wid = (case map_of ?h wid of None \<Rightarrow> None
            | Some lvl \<Rightarrow> excess_entry_b64 avg lvl)" for wid
      using classify_loop_b64_lookup[OF dh cl, of wid] by (simp split: option.splits)
    have lookD: "map_of D wid = (case map_of ?h wid of None \<Rightarrow> None
            | Some lvl \<Rightarrow> deficit_entry_b64 avg lvl)" for wid
      using classify_loop_b64_lookup[OF dh cl, of wid] by (simp split: option.splits)
    have cE: "map_of E wid = Some a \<longleftrightarrow>
              (\<exists>lvl r. map_of ?h wid = Some lvl \<and>
                 0 < threshold_range lvl \<and> ratio_b64 lvl = Inr r \<and>
                 float_gt r (float_add avg literal_0_25) \<and>
                 excess_amount_b64 avg r (threshold_range lvl) = Inr a \<and> 0 < a)" for wid a
      unfolding lookE
      by (auto simp: excess_entry_b64_def split: option.splits sum.splits if_splits)
    have cD: "map_of D wid = Some a \<longleftrightarrow>
              (\<exists>lvl r. map_of ?h wid = Some lvl \<and>
                 0 < threshold_range lvl \<and> ratio_b64 lvl = Inr r \<and>
                 float_lt r (float_sub avg literal_0_25) \<and>
                 deficit_amount_b64 avg r (threshold_range lvl) = Inr a \<and> 0 < a)" for wid a
      unfolding lookD
      by (auto simp: deficit_entry_b64_def split: option.splits sum.splits if_splits)
    have dec: "E \<noteq> [] \<and> D \<noteq> []"
      if "balance_inventory_b64 warehouses = Inr ds"
        "item \<in> ti_id ` (\<Union>d \<in> set ds. set (td_items d))" for ds
    proof -
      from that(2) obtain d it where "d \<in> set ds" "it \<in> set (td_items d)" "ti_id it = item"
        by auto
      with balance_inventory_b64_items[OF that(1)] obtain res where
        res: "identify_inventory_imbalances_b64 warehouses = Inr res"
        and "item \<in> fst ` set res" by blast
      then obtain im where "map_of res item = Some im"
        by (metis domD dom_map_of_conv_image_fst)
      then have "identify_item_b64 data = Inr (Some im)"
        using identify_loop_b64_lookup
          [OF dinv res[unfolded identify_inventory_imbalances_b64_def], of item] data
        by (auto split: sum.splits option.splits)
      from identify_item_b64_Some[OF this] cED show ?thesis by auto
    qed
    show ?thesis using avg cE cD dec by blast
  qed
  have err: "e = OverflowError" if "classify_item_b64 data = Inl e" for e
    using that by (rule classify_item_b64_error)
  have mod: "\<exists>E D. classify_item_b64 data = Inr (Some (E, D))"
    if "moderate_levels (holdings warehouses item)"
    using classify_item_b64_returns[of data] that assms(2,3) by (simp add: h)
  show ?thesis
    using data h nn err mod ret main by blast
qed

text \<open>
  The scenario of the specification: A holds 50 and B holds 180 of an item with minimum
  100 and maximum 200. The ratios are the floats \<^verbatim>\<open>-0.5\<close> and \<^verbatim>\<open>0.8\<close>, their mean is the
  float \<^verbatim>\<open>0.15000000000000002\<close>; B is recorded with an excess of 50 and A with a deficit
  of 50, and 50 units go from B to A.
\<close>

lemma scenario_classification:
  "wf_warehouses [scenario_warehouse ''A'' 50 100 200, scenario_warehouse ''B'' 180 100 200] \<and>
   1 < length (holdings
     [scenario_warehouse ''A'' 50 100 200, scenario_warehouse ''B'' 180 100 200] ''X'') \<and>
   valid_levels (holdings
     [scenario_warehouse ''A'' 50 100 200, scenario_warehouse ''B'' 180 100 200] ''X'') \<noteq> [] \<and>
   moderate_levels (holdings
     [scenario_warehouse ''A'' 50 100 200, scenario_warehouse ''B'' 180 100 200] ''X'') \<and>
   mean_b64 (holdings
     [scenario_warehouse ''A'' 50 100 200, scenario_warehouse ''B'' 180 100 200] ''X'') =
     Inr (Finite (1351079888211149 / 9007199254740992)) \<and>
   map_option classify_item_b64
     (map_of (collect_inventory_loop
                [scenario_warehouse ''A'' 50 100 200, scenario_warehouse ''B'' 180 100 200] [])
        ''X'') =
     Some (Inr (Some ([(''B'', 50)], [(''A'', 50)]))) \<and>
   balance_inventory_b64
     [scenario_warehouse ''A'' 50 100 200, scenario_warehouse ''B'' 180 100 200] =
     Inr [\<lparr>source_warehouse = ''B'', destination_warehouse = ''A'',
           td_items = [\<lparr>ti_id = ''X'', ti_name = ''X'', ti_quantity = 50, ti_unit = ''units''\<rparr>],
           td_reason = ''inventory_balancing'', td_priority = 3\<rparr>]"
  by code_simp

theorem imbalance_classification_witness:
  "wf_warehouses [scenario_warehouse ''A'' 50 100 200, scenario_warehouse ''B'' 180 100 200] \<and>
   1 < length (holdings
     [scenario_warehouse ''A'' 50 100 200, scenario_warehouse ''B'' 180 100 200] ''X'') \<and>
   valid_levels (holdings
     [scenario_warehouse ''A'' 50 100 200, scenario_warehouse ''B'' 180 100 200] ''X'') \<noteq> [] \<and>
   moderate_levels (holdings
     [scenario_warehouse ''A'' 50 100 200, scenario_warehouse ''B'' 180 100 200] ''X'') \<and>
   mean_b64 (holdings
     [scenario_warehouse ''A'' 50 100 200, scenario_warehouse ''B'' 180 100 200] ''X'') =
     Inr (Finite (1351079888211149 / 9007199254740992)) \<and>
   map_option classify_item_b64
     (map_of (collect_inventory_loop
                [scenario_warehouse ''A'' 50 100 200, scenario_warehouse ''B'' 180 100 200] [])
        ''X'') =
     Some (Inr (Some ([(''B'', 50)], [(''A'', 50)]))) \<and>
   balance_inventory_b64
     [scenario_warehouse ''A'' 50 100 200, scenario_warehouse ''B'' 180 100 200] =
     Inr [\<lparr>source_warehouse = ''B'', destination_warehouse = ''A'',
           td_items = [\<lparr>ti_id = ''X'', ti_name = ''X'', ti_quantity = 50, ti_unit = ''units''\<rparr>],
           td_reason = ''inventory_balancing'', td_priority = 3\<rparr>]"
  using imbalance_classification
    [of "[scenario_warehouse ''A'' 50 100 200, scenario_warehouse ''B'' 180 100 200]" "''X''"]
    scenario_classification
  by simp

text \<open>
  The rounding shows in ordinary snapshots. With A at 50 and B at 102 (minimum 100,
  maximum 200) the deficit of A is \<^verbatim>\<open>int(10.999999999999998)\<close>, which is 10, where the
  exact amount is 11. With A at 0, B at 35 and C at 55 the mean of the floats is
  \<^verbatim>\<open>-0.7000000000000001\<close>, so C, whose ratio is exactly 0.25 above the exact mean, is
  recorded as excess and 10 units go from C to A, where exact arithmetic records no
  excess and makes no transfer.
\<close>

lemma rounding_changes_classification:
  "map_option classify_item_b64
     (map_of (collect_inventory_loop
                [scenario_warehouse ''A'' 50 100 200, scenario_warehouse ''B'' 102 100 200] [])
        ''X'') =
     Some (Inr (Some ([(''B'', 11)], [(''A'', 10)]))) \<and>
   map_option classify_item
     (map_of (collect_inventory_loop
                [scenario_warehouse ''A'' 50 100 200, scenario_warehouse ''B'' 102 100 200] [])
        ''X'') =
     Some (Some ([(''B'', 11)], [(''A'', 11)])) \<and>
   balance_inventory_b64
     [scenario_warehouse ''A'' 0 100 200, scenario_warehouse ''B'' 35 100 200,
      scenario_warehouse ''C'' 55 100 200] =
     Inr [\<lparr>source_warehouse = ''C'', destination_warehouse = ''A'',
           td_items = [\<lparr>ti_id = ''X'', ti_name = ''X'', ti_quantity = 10, ti_unit = ''units''\<rparr>],
           td_reason = ''inventory_balancing'', td_priority = 3\<rparr>] \<and>
   balance_inventory
     [scenario_warehouse ''A'' 0 100 200, scenario_warehouse ''B'' 35 100 200,
      scenario_warehouse ''C'' 55 100 200] = Inr []"
  by code_simp

end
